(* ===== verification/Go_Base.thy ===== *)
theory Go_Base
  imports Main "HOL-Library.Word"
begin

text \<open>
  The prelude of the development: how values of the Go language are represented.

  \<^item> A Go integer of fixed width is a word (\<open>u8\<close>, \<open>u16\<close>, \<open>u32\<close>, \<open>u64\<close>); a length or a loop
    counter that cannot leave its range is a \<open>nat\<close>.
  \<^item> A Go string or byte slice is a list: \<open>string\<close> (a \<open>char\<close> is one byte) where the code
    treats it as text, \<open>u8 list\<close> where it treats it as binary data.
  \<^item> A run-time panic (an index or a slice out of range, a nil dereference) is the value
    \<open>Panic\<close> of the type \<open>'a go\<close>; a normal return is \<open>Ret\<close>.
  \<^item> An \<open>error\<close> result is a \<open>goerr option\<close>, or the left of a sum when the code returns no
    value beside it.
\<close>

unbundle bit_operations_syntax

named_theorems go_simps \<open>evaluation rules for slices, panics and results\<close>
named_theorems frame_simps \<open>fields that an operation leaves alone\<close>

type_synonym u8 = "8 word"
type_synonym u16 = "16 word"
type_synonym u32 = "32 word"
type_synonym u64 = "64 word"
type_synonym i32 = "32 word"
type_synonym bytes = "u8 list"

section \<open>Panics and errors\<close>

datatype 'a go = Ret 'a | Panic

datatype goerr = EOF | UnexpectedEOF | Err string

fun err_text :: "goerr \<Rightarrow> string" where
  "err_text EOF = ''EOF''"
| "err_text UnexpectedEOF = ''unexpected EOF''"
| "err_text (Err s) = s"

primrec go_bind :: "'a go \<Rightarrow> ('a \<Rightarrow> 'b go) \<Rightarrow> 'b go" where
  "go_bind (Ret x) f = f x"
| "go_bind Panic f = Panic"

lemma go_bind_Ret_iff [go_simps]:
  "go_bind m f = Ret y \<longleftrightarrow> (\<exists>x. m = Ret x \<and> f x = Ret y)"
  by (cases m) auto

lemma go_bind_Panic_iff [go_simps]:
  "go_bind m f = Panic \<longleftrightarrow> m = Panic \<or> (\<exists>x. m = Ret x \<and> f x = Panic)"
  by (cases m) auto

section \<open>Slices\<close>

text \<open>A slice longer than the address space of the machine makes \<open>make\<close> panic; \<open>max_alloc\<close> is that
  bound on a 64-bit Linux.\<close>

definition max_alloc :: int where
  "max_alloc = 2 ^ 48"

text \<open>\<open>xs[lo:hi]\<close>: Go panics unless \<open>lo \<le> hi \<le> len(xs)\<close>.\<close>

definition slice_ok :: "nat \<Rightarrow> nat \<Rightarrow> nat \<Rightarrow> bool" where
  "slice_ok lo hi len \<longleftrightarrow> lo \<le> hi \<and> hi \<le> len"

definition go_slice :: "'a list \<Rightarrow> nat \<Rightarrow> nat \<Rightarrow> 'a list go" where
  "go_slice xs lo hi =
     (if slice_ok lo hi (length xs) then Ret (take (hi - lo) (drop lo xs)) else Panic)"

lemma go_slice_Ret [go_simps]:
  "lo \<le> hi \<Longrightarrow> hi \<le> length xs \<Longrightarrow> go_slice xs lo hi = Ret (take (hi - lo) (drop lo xs))"
  by (simp add: go_slice_def slice_ok_def)

lemma go_slice_Panic [go_simps]:
  "go_slice xs lo hi = Panic \<longleftrightarrow> hi < lo \<or> length xs < hi"
  by (auto simp: go_slice_def slice_ok_def)

text \<open>\<open>copy(dst[at:], src)\<close> with the destination window inside \<open>dst\<close>: the bytes of \<open>src\<close> that fit.\<close>

definition overwrite :: "'a list \<Rightarrow> nat \<Rightarrow> 'a list \<Rightarrow> 'a list" where
  "overwrite xs at ys = take at xs @ take (length xs - at) ys @ drop (at + length ys) xs"

lemma length_overwrite [simp]: "at \<le> length xs \<Longrightarrow> length (overwrite xs at ys) = length xs"
  by (auto simp: overwrite_def)

lemma overwrite_full: "length ys = length xs \<Longrightarrow> overwrite xs 0 ys = ys"
  by (simp add: overwrite_def)

lemma overwrite_append:
  "length ys \<le> length zs \<Longrightarrow> overwrite (xs @ zs) (length xs) ys = xs @ ys @ drop (length ys) zs"
  by (simp add: overwrite_def)

section \<open>Lists\<close>

lemma take_add_drop: "take m xs @ take n (drop m xs) = take (m + n) xs"
  by (simp add: take_add)

lemma append_eq_take_drop:
  "xs = bs @ ys \<Longrightarrow> ys = drop (length bs) xs \<and> bs = take (length bs) xs"
  by simp

lemma map_of_rev_snoc: "map_of (rev (kvs @ [(k, v)])) = (map_of (rev kvs))(k \<mapsto> v)"
  by (simp add: fun_eq_iff)

section \<open>Words\<close>

lemma unat_of_nat_less [simp]:
  "n < 2 ^ LENGTH('w::len) \<Longrightarrow> unat (of_nat n :: 'w word) = n"
  by (simp add: unat_of_nat take_bit_nat_eq_self)

lemma unat_u8_less: "unat (a :: u8) < 256"
  using unsigned_less [of a] by simp

lemma unat_u16_less: "unat (a :: u16) < 65536"
  using unsigned_less [of a] by simp

lemma unat_u32_less: "unat (a :: u32) < 2 ^ 32"
  using unsigned_less [of a] by simp

lemma unat_u64_less: "unat (a :: u64) < 2 ^ 64"
  using unsigned_less [of a] by simp

lemma unat_u64_add:
  "unat a + unat b < 2 ^ 64 \<Longrightarrow> unat (a + b :: u64) = unat a + unat b"
  by (simp add: unat_word_ariths)

lemma unat_u64_sub: "unat b \<le> unat a \<Longrightarrow> unat (a - b :: u64) = unat a - unat b"
  by (simp add: unat_sub word_le_nat_alt)

end
