(* ===== verification/Go_Strings.thy ===== *)
theory Go_Strings
  imports Go_Base
begin

text \<open>
  What the program uses of Go's \<open>strings\<close>, \<open>bytes\<close>, \<open>strconv\<close> and \<open>fmt\<close>: prefixes,
  single-byte search, splitting, trimming, and the reading and printing of decimal integers.
  A \<open>string\<close> is the UTF-8 byte sequence Go works on.
\<close>

section \<open>Search and split\<close>

definition has_prefix :: "string \<Rightarrow> string \<Rightarrow> bool" where
  "has_prefix p s = (take (length p) s = p)"

definition trim_prefix :: "string \<Rightarrow> string \<Rightarrow> string" where
  "trim_prefix p s = (if has_prefix p s then drop (length p) s else s)"

text \<open>\<open>bytes.IndexByte\<close>, \<open>strings.Index\<close> with a one-byte needle.\<close>

fun index_byte :: "char \<Rightarrow> string \<Rightarrow> nat option" where
  "index_byte c [] = None"
| "index_byte c (x # xs) = (if x = c then Some 0 else map_option Suc (index_byte c xs))"

text \<open>\<open>strings.Split\<close> with a one-byte separator.\<close>

fun split_byte :: "char \<Rightarrow> string \<Rightarrow> string list" where
  "split_byte c [] = [[]]"
| "split_byte c (x # xs) =
     (if x = c then [] # split_byte c xs
      else (case split_byte c xs of [] \<Rightarrow> [[x]] | p # ps \<Rightarrow> (x # p) # ps))"

text \<open>\<open>strings.SplitN(s, sep, 2)\<close> with a one-byte separator.\<close>

definition splitn2 :: "char \<Rightarrow> string \<Rightarrow> string list" where
  "splitn2 c s =
     (case index_byte c s of None \<Rightarrow> [s] | Some i \<Rightarrow> [take i s, drop (Suc i) s])"

lemma has_prefix_append [simp]: "has_prefix p (p @ s)"
  by (simp add: has_prefix_def)

lemma trim_prefix_append [simp]: "trim_prefix p (p @ s) = s"
  by (simp add: trim_prefix_def)

lemma index_byte_None [simp]: "index_byte c s = None \<longleftrightarrow> c \<notin> set s"
  by (induction s) auto

lemma index_byte_append:
  "c \<notin> set s \<Longrightarrow> index_byte c (s @ c # t) = Some (length s)"
  by (induction s) auto

lemma index_byte_Some:
  "index_byte c s = Some i \<Longrightarrow> i < length s \<and> s ! i = c \<and> c \<notin> set (take i s)"
  by (induction s arbitrary: i) (auto split: if_splits simp: nth_Cons')

lemma splitn2_append: "c \<notin> set s \<Longrightarrow> splitn2 c (s @ c # t) = [s, t]"
  by (simp add: splitn2_def index_byte_append)

lemma splitn2_absent: "c \<notin> set s \<Longrightarrow> splitn2 c s = [s]"
  by (auto simp: splitn2_def split: option.split dest: index_byte_Some)

lemma split_byte_absent: "c \<notin> set s \<Longrightarrow> split_byte c s = [s]"
  by (induction s) auto

lemma split_byte_append:
  "c \<notin> set s \<Longrightarrow> split_byte c (s @ c # t) = s # split_byte c t"
  by (induction s) auto

section \<open>Trimming\<close>

text \<open>
  \<open>unicode.IsSpace\<close> as UTF-8 byte sequences: U+0009 to U+000D, U+0020, U+0085, U+00A0,
  U+1680, U+2000 to U+200A, U+2028, U+2029, U+202F, U+205F and U+3000. A prefix of a string
  decodes to one of these runes exactly when the string starts with its sequence; the same
  holds at the end of the string.
\<close>

definition space_runes :: "string list" where
  "space_runes = map (map char_of)
     [[9], [10], [11], [12], [13], [32], [0xC2, 0x85], [0xC2, 0xA0], [0xE1, 0x9A, 0x80],
      [0xE2, 0x80, 0x80], [0xE2, 0x80, 0x81], [0xE2, 0x80, 0x82], [0xE2, 0x80, 0x83],
      [0xE2, 0x80, 0x84], [0xE2, 0x80, 0x85], [0xE2, 0x80, 0x86], [0xE2, 0x80, 0x87],
      [0xE2, 0x80, 0x88], [0xE2, 0x80, 0x89], [0xE2, 0x80, 0x8A], [0xE2, 0x80, 0xA8],
      [0xE2, 0x80, 0xA9], [0xE2, 0x80, 0xAF], [0xE2, 0x81, 0x9F], [0xE3, 0x80, 0x80::nat]]"

fun lead_len :: "string list \<Rightarrow> string \<Rightarrow> nat" where
  "lead_len [] s = 0"
| "lead_len (q # qs) s = (if has_prefix q s then length q else lead_len qs s)"

lemma has_prefix_length: "has_prefix p s \<Longrightarrow> length p \<le> length s"
  by (metis has_prefix_def length_take min.bounded_iff order_refl)

lemma lead_len_le: "lead_len qs s \<le> length s"
  by (induction qs) (auto dest: has_prefix_length)

lemma lead_len_drop: "lead_len qs s \<noteq> 0 \<Longrightarrow> length (drop (lead_len qs s) s) < length s"
  using lead_len_le [of qs s] by (cases s) auto

lemma lead_len_0I: "(\<And>q. q \<in> set qs \<Longrightarrow> \<not> has_prefix q s) \<Longrightarrow> lead_len qs s = 0"
  by (induction qs) auto

function trim_lead :: "string list \<Rightarrow> string \<Rightarrow> string" where
  "trim_lead qs s = (if lead_len qs s = 0 then s else trim_lead qs (drop (lead_len qs s) s))"
  by pat_completeness auto
termination
  by (relation "measure (\<lambda>(qs, s). length s)") (use lead_len_drop in auto)

declare trim_lead.simps [simp del]

lemma trim_lead_id: "lead_len qs s = 0 \<Longrightarrow> trim_lead qs s = s"
  by (simp add: trim_lead.simps)

lemma trim_lead_stop: "lead_len qs (trim_lead qs s) = 0"
proof (induction qs s rule: trim_lead.induct)
  case (1 qs s)
  then show ?case by (subst trim_lead.simps) (simp add: trim_lead_id)
qed

lemma trim_lead_suffix: "\<exists>p. s = p @ trim_lead qs s"
proof (induction qs s rule: trim_lead.induct)
  case (1 qs s)
  show ?case
  proof (cases "lead_len qs s = 0")
    case True
    then show ?thesis by (simp add: trim_lead_id)
  next
    case False
    with 1 obtain p where "drop (lead_len qs s) s = p @ trim_lead qs (drop (lead_len qs s) s)"
      by blast
    moreover have "trim_lead qs s = trim_lead qs (drop (lead_len qs s) s)"
      using False by (subst trim_lead.simps) simp
    ultimately have "s = (take (lead_len qs s) s @ p) @ trim_lead qs s"
      by (metis append_assoc append_take_drop_id)
    then show ?thesis by blast
  qed
qed

text \<open>\<open>strings.TrimSpace\<close>, and \<open>strings.Trim\<close> with an ASCII cutset.\<close>

definition trim_tail :: "string list \<Rightarrow> string \<Rightarrow> string" where
  "trim_tail qs s = rev (trim_lead (map rev qs) (rev s))"

definition trim_space :: "string \<Rightarrow> string" where
  "trim_space s = trim_tail space_runes (trim_lead space_runes s)"

definition trim_cutset :: "string \<Rightarrow> string \<Rightarrow> string" where
  "trim_cutset cs s =
     (let qs = map (\<lambda>c. [c]) cs in trim_tail qs (trim_lead qs s))"

text \<open>A string that neither trimming touches: no space rune and no cutset byte at either end.\<close>

definition untrimmed :: "string list \<Rightarrow> string \<Rightarrow> bool" where
  "untrimmed qs s \<longleftrightarrow> lead_len qs s = 0 \<and> lead_len (map rev qs) (rev s) = 0"

lemma trim_tail_id: "untrimmed qs s \<Longrightarrow> trim_tail qs (trim_lead qs s) = s"
  by (simp add: untrimmed_def trim_tail_def trim_lead_id)

lemma trim_space_id: "untrimmed space_runes s \<Longrightarrow> trim_space s = s"
  by (simp add: trim_space_def trim_tail_id)

lemma trim_cutset_id: "untrimmed (map (\<lambda>c. [c]) cs) s \<Longrightarrow> trim_cutset cs s = s"
  by (simp add: trim_cutset_def Let_def trim_tail_id)

section \<open>Decimal integers\<close>

definition digit_char :: "nat \<Rightarrow> char" where
  "digit_char d = char_of (48 + d)"

definition digit_val :: "char \<Rightarrow> nat option" where
  "digit_val c =
     (let n = of_char c :: nat in if 48 \<le> n \<and> n \<le> 57 then Some (n - 48) else None)"

text \<open>The verb \<open>%d\<close> of \<open>fmt\<close>.\<close>

fun itoa_nat :: "nat \<Rightarrow> string" where
  "itoa_nat n =
     (if n < 10 then [digit_char n] else itoa_nat (n div 10) @ [digit_char (n mod 10)])"

declare itoa_nat.simps [simp del]

definition itoa :: "int \<Rightarrow> string" where
  "itoa i = (if i < 0 then CHR ''-'' # itoa_nat (nat (- i)) else itoa_nat (nat i))"

text \<open>The longest run of digits at the start, with its value.\<close>

fun scan_digits :: "nat \<Rightarrow> string \<Rightarrow> nat \<times> string" where
  "scan_digits acc [] = (acc, [])"
| "scan_digits acc (c # cs) =
     (case digit_val c of None \<Rightarrow> (acc, c # cs) | Some d \<Rightarrow> scan_digits (10 * acc + d) cs)"

definition is_digit :: "char \<Rightarrow> bool" where
  "is_digit c = (digit_val c \<noteq> None)"

text \<open>An optional sign, then at least one digit; the value must fit a 64-bit int.\<close>

definition in_int64 :: "int \<Rightarrow> bool" where
  "in_int64 i \<longleftrightarrow> - (2 ^ 63) \<le> i \<and> i < 2 ^ 63"

definition scan_int :: "string \<Rightarrow> (int \<times> string) option" where
  "scan_int s =
     (let neg = has_prefix ''-'' s;
          ds = (if neg \<or> has_prefix ''+'' s then tl s else s)
      in if ds = [] \<or> \<not> is_digit (hd ds) then None
         else (let (n, rest) = scan_digits 0 ds; i = (if neg then - int n else int n)
               in if in_int64 i then Some (i, rest) else None))"

text \<open>\<open>strconv.Atoi\<close>: the whole string is the number.\<close>

definition atoi :: "string \<Rightarrow> int option" where
  "atoi s = (case scan_int s of Some (i, []) \<Rightarrow> Some i | _ \<Rightarrow> None)"

lemma digit_chars:
  "digit_char 0 = CHR ''0''"
  "digit_char (Suc 0) = CHR ''1''"
  "digit_char 2 = CHR ''2''"
  "digit_char 3 = CHR ''3''"
  "digit_char 4 = CHR ''4''"
  "digit_char 5 = CHR ''5''"
  "digit_char 6 = CHR ''6''"
  "digit_char 7 = CHR ''7''"
  "digit_char 8 = CHR ''8''"
  "digit_char 9 = CHR ''9''"
  by code_simp+

lemma digit_val_digit_char [simp]: "d < 10 \<Longrightarrow> digit_val (digit_char d) = Some d"
  by (simp add: digit_val_def digit_char_def)

lemma is_digit_digit_char [simp]: "d < 10 \<Longrightarrow> is_digit (digit_char d)"
  by (simp add: is_digit_def)

lemma digit_char_ne: "d < 10 \<Longrightarrow> digit_val c = None \<Longrightarrow> digit_char d \<noteq> c"
  by (metis digit_val_digit_char option.distinct(1))

lemma itoa_nat_nonempty [simp]: "itoa_nat n \<noteq> []"
  by (subst itoa_nat.simps) simp

lemma itoa_nat_digits: "c \<in> set (itoa_nat n) \<Longrightarrow> is_digit c"
proof (induction n rule: itoa_nat.induct)
  case (1 n)
  then show ?case by (cases "n < 10") (auto simp: itoa_nat.simps [of n])
qed

lemma scan_digits_append:
  "scan_digits acc (itoa_nat n @ s) = scan_digits (acc * 10 ^ length (itoa_nat n) + n) s"
proof (induction n arbitrary: s acc rule: itoa_nat.induct)
  case (1 n)
  show ?case
  proof (cases "n < 10")
    case True
    then show ?thesis by (simp add: itoa_nat.simps [of n] mult.commute)
  next
    case False
    have "scan_digits acc (itoa_nat n @ s)
        = scan_digits acc (itoa_nat (n div 10) @ digit_char (n mod 10) # s)"
      using False by (simp add: itoa_nat.simps [of n])
    also have "\<dots> = scan_digits (10 * (acc * 10 ^ length (itoa_nat (n div 10)) + n div 10)
        + n mod 10) s"
      using "1" False by simp
    finally show ?thesis
      using False by (simp add: itoa_nat.simps [of n] algebra_simps)
  qed
qed

lemma scan_digits_stop:
  "s = [] \<or> \<not> is_digit (hd s) \<Longrightarrow> scan_digits acc s = (acc, s)"
  by (cases s) (auto simp: is_digit_def)

lemma is_digit_hd_itoa [simp]: "is_digit (hd (itoa_nat n @ s))"
  using itoa_nat_digits [of "hd (itoa_nat n)" n] by simp

lemma not_digit_sign [simp]: "\<not> is_digit (CHR ''-'')" "\<not> is_digit (CHR ''+'')"
  by (simp_all add: is_digit_def digit_val_def)

lemma itoa_no_sign [simp]:
  "\<not> has_prefix ''-'' (itoa_nat n @ s)" "\<not> has_prefix ''+'' (itoa_nat n @ s)"
  using is_digit_hd_itoa [of n s] not_digit_sign
  by (cases "itoa_nat n @ s"; force simp: has_prefix_def)+

lemma scan_int_itoa:
  assumes "int n < 2 ^ 63" and "s = [] \<or> \<not> is_digit (hd s)"
  shows "scan_int (itoa_nat n @ s) = Some (int n, s)"
proof -
  have "scan_digits 0 (itoa_nat n @ s) = (n, s)"
    using scan_digits_append [of 0 n s] scan_digits_stop [OF assms(2)] by simp
  moreover have "in_int64 (int n)"
    using assms(1) by (simp add: in_int64_def)
  ultimately show ?thesis
    by (simp add: scan_int_def Let_def del: hd_append2)
qed

lemma atoi_itoa: "int n < 2 ^ 63 \<Longrightarrow> atoi (itoa_nat n) = Some (int n)"
  using scan_int_itoa [of n "[]"] by (simp add: atoi_def)

text \<open>
  \<open>fmt.Sscanf(s, "%d", &n)\<close>: white space before the number is skipped, except that a
  newline is an error. A failed scan leaves \<open>n\<close> as it was, which is \<open>None\<close> here.
\<close>

function scan_skip :: "string \<Rightarrow> string option" where
  "scan_skip s =
     (if has_prefix ''\<newline>'' s then None
      else if lead_len space_runes s = 0 then Some s
      else scan_skip (drop (lead_len space_runes s) s))"
  by pat_completeness auto
termination
  by (relation "measure length") (use lead_len_drop in auto)

declare scan_skip.simps [simp del]

definition sscanf_d :: "string \<Rightarrow> int option" where
  "sscanf_d s = (case scan_skip s of None \<Rightarrow> None | Some t \<Rightarrow> map_option fst (scan_int t))"

lemma space_runes_no_digit: "\<forall>q \<in> set space_runes. q \<noteq> [] \<and> \<not> is_digit (hd q)"
  by code_simp

lemma digit_no_lead: "is_digit c \<Longrightarrow> lead_len space_runes (c # s) = 0"
proof (rule lead_len_0I)
  fix q
  assume "is_digit c" and "q \<in> set space_runes"
  then show "\<not> has_prefix q (c # s)"
    using space_runes_no_digit by (cases q) (auto simp: has_prefix_def)
qed

lemma space_runes_no_digit_end: "\<forall>q \<in> set space_runes. \<not> is_digit (hd (rev q))"
  by code_simp

lemma digits_untrimmed:
  assumes "\<And>c. c \<in> set s \<Longrightarrow> is_digit c"
  shows "untrimmed space_runes s"
proof -
  have "lead_len space_runes [] = 0" by code_simp
  then have "lead_len space_runes s = 0"
    using assms by (cases s) (auto intro: digit_no_lead)
  moreover have "lead_len (map rev space_runes) (rev s) = 0"
  proof (rule lead_len_0I)
    fix q
    assume "q \<in> set (map rev space_runes)"
    then have "q \<noteq> []" "\<not> is_digit (hd q)"
      using space_runes_no_digit space_runes_no_digit_end by auto
    then show "\<not> has_prefix q (rev s)"
      using assms by (cases q; cases "rev s") (auto simp: has_prefix_def dest: arg_cong [where f = set])
  qed
  ultimately show ?thesis by (simp add: untrimmed_def)
qed

lemma atoi_trim_itoa: "int n < 2 ^ 63 \<Longrightarrow> atoi (trim_space (itoa_nat n)) = Some (int n)"
  by (simp add: trim_space_id digits_untrimmed itoa_nat_digits atoi_itoa)

lemma sscanf_d_itoa:
  assumes "int n < 2 ^ 63" and "s = [] \<or> \<not> is_digit (hd s)"
  shows "sscanf_d (itoa_nat n @ s) = Some (int n)"
proof -
  obtain c cs where c: "itoa_nat n @ s = c # cs" and "is_digit c"
    using is_digit_hd_itoa [of n s] by (cases "itoa_nat n @ s") auto
  moreover have "\<not> is_digit (CHR ''\<newline>'')" by code_simp
  ultimately have "scan_skip (itoa_nat n @ s) = Some (itoa_nat n @ s)"
    by (auto simp: scan_skip.simps [of "c # cs"] digit_no_lead has_prefix_def)
  then show ?thesis
    by (simp add: sscanf_d_def scan_int_itoa [OF assms])
qed

end
