(* ===== verification/Go_Binary.thy ===== *)
theory Go_Binary
  imports Go_Base
begin

text \<open>
  \<open>encoding/binary\<close>: 16- and 32-bit words as bytes in big- and little-endian order, and that
  reading inverts writing. \<open>be32 a b c d\<close> is \<open>binary.BigEndian.Uint32\<close> of the bytes
  \<open>a\<close>, \<open>b\<close>, \<open>c\<close>, \<open>d\<close>; \<open>put_be32\<close> is \<open>binary.BigEndian.PutUint32\<close>.
\<close>

definition put_be16 :: "u16 \<Rightarrow> bytes" where
  "put_be16 v = [ucast (drop_bit 8 v), ucast v]"

definition put_be32 :: "u32 \<Rightarrow> bytes" where
  "put_be32 v = [ucast (drop_bit 24 v), ucast (drop_bit 16 v), ucast (drop_bit 8 v), ucast v]"

definition be16 :: "u8 \<Rightarrow> u8 \<Rightarrow> u16" where
  "be16 a b = ucast b OR push_bit 8 (ucast a)"

definition be32 :: "u8 \<Rightarrow> u8 \<Rightarrow> u8 \<Rightarrow> u8 \<Rightarrow> u32" where
  "be32 a b c d =
     ucast d OR push_bit 8 (ucast c) OR push_bit 16 (ucast b) OR push_bit 24 (ucast a)"

definition le32 :: "u8 \<Rightarrow> u8 \<Rightarrow> u8 \<Rightarrow> u8 \<Rightarrow> u32" where
  "le32 a b c d = be32 d c b a"

definition put_le32 :: "u32 \<Rightarrow> bytes" where
  "put_le32 v = rev (put_be32 v)"

lemma length_put_be [simp]: "length (put_be16 v) = 2" "length (put_be32 w) = 4"
  by (simp_all add: put_be16_def put_be32_def)

lemma length_put_le32 [simp]: "length (put_le32 v) = 4"
  by (simp add: put_le32_def)

lemma be16_put: "be16 (ucast (drop_bit 8 v)) (ucast v) = v"
  unfolding be16_def by (rule bit_word_eqI) (auto simp: bit_simps)

lemma be32_put:
  "be32 (ucast (drop_bit 24 v)) (ucast (drop_bit 16 v)) (ucast (drop_bit 8 v)) (ucast v) = v"
proof (rule bit_word_eqI)
  fix n :: nat
  assume "n < LENGTH(32)"
  then consider "n < 8" | "8 \<le> n" "n < 16" | "16 \<le> n" "n < 24" | "24 \<le> n" "n < 32"
    by fastforce
  then show "bit (be32 (ucast (drop_bit 24 v)) (ucast (drop_bit 16 v)) (ucast (drop_bit 8 v))
      (ucast v)) n = bit v n"
    unfolding be32_def by cases (auto simp: bit_simps)
qed

lemma put_be32_be32: "put_be32 (be32 a b c d) = [a, b, c, d]"
  unfolding be32_def put_be32_def
  by simp (intro conjI; rule bit_word_eqI; auto simp: bit_simps dest: bit_imp_le_length)

text \<open>The two bytes of a number below 65536, put together with \<open>|\<close> and \<open><< 8\<close>.\<close>

lemma unat_or_shift:
  assumes "lo < 256" and "hi < 256"
  shows "unat ((of_nat lo :: u16) OR push_bit 8 (of_nat hi)) = lo + 256 * hi"
proof -
  have "take_bit 8 lo = lo" using assms by (simp add: take_bit_nat_eq_self)
  then have b: "bit lo n \<Longrightarrow> n < 8" for n by (metis bit_take_bit_iff)
  have "(of_nat lo :: u16) AND push_bit 8 (of_nat hi) = 0"
    by (rule bit_word_eqI) (auto simp: bit_simps dest: b)
  then have "(of_nat lo :: u16) OR push_bit 8 (of_nat hi) = of_nat lo + push_bit 8 (of_nat hi)"
    by (simp add: disjunctive_add_eq_or)
  also have "\<dots> = of_nat (lo + 256 * hi)"
    by (simp add: push_bit_eq_mult)
  finally have eq: "(of_nat lo :: u16) OR push_bit 8 (of_nat hi) = of_nat (lo + 256 * hi)" .
  have "lo + 256 * hi < 2 ^ LENGTH(16)" using assms by simp
  then show ?thesis unfolding eq by (rule unat_of_nat_less)
qed

end
