(* ===== verification/Net_Conn.thy ===== *)
theory Net_Conn
  imports Go_Base
begin

text \<open>
  A connection (\<open>net.Conn\<close>, \<open>io.ReadWriter\<close>) and the readers the program puts on it.

  The input side is the list of segments in the order the network delivers them: one
  \<open>Read(p)\<close> returns at most \<open>len(p)\<close> bytes and never crosses a segment boundary, so it may
  return fewer bytes than asked for although more will come. After the last segment every
  read returns the error \<open>rerr\<close>. The output side is the list of the buffers written;
  \<open>wleft\<close> says how many more writes the peer accepts (\<open>None\<close>: all).

  The locale \<open>byte_source\<close> is the contract of an \<open>io.Reader\<close>: what a read returns is the next
  part of the pending bytes. It is interpreted by a plain read and by the exact reader of
  \<open>authproxy.go\<close>.
\<close>

record 'b conn =
  inp :: "'b list list"
  rerr :: goerr
  outp :: "'b list list"
  wleft :: "nat option"

definition pending :: "'b conn \<Rightarrow> 'b list" where
  "pending c = concat (inp c)"

section \<open>Read and Write\<close>

definition conn_read :: "nat \<Rightarrow> 'b conn \<Rightarrow> ('b list \<times> goerr option) \<times> 'b conn" where
  "conn_read n c =
     (if n = 0 then (([], None), c)
      else (case dropWhile (\<lambda>s. s = []) (inp c) of
              [] \<Rightarrow> (([], Some (rerr c)), c\<lparr>inp := []\<rparr>)
            | s # ss \<Rightarrow> ((take n s, None), c\<lparr>inp := drop n s # ss\<rparr>)))"

definition conn_write :: "'b list \<Rightarrow> 'b conn \<Rightarrow> goerr option \<times> 'b conn" where
  "conn_write bs c =
     (case wleft c of
        None \<Rightarrow> (None, c\<lparr>outp := outp c @ [bs]\<rparr>)
      | Some 0 \<Rightarrow> (Some (Err ''write: broken pipe''), c)
      | Some (Suc k) \<Rightarrow> (None, c\<lparr>outp := outp c @ [bs], wleft := Some k\<rparr>))"

lemma concat_dropWhile_Nil: "concat (dropWhile (\<lambda>s. s = []) ss) = concat ss"
  by (induction ss) auto

lemma dropWhile_Nil_Cons:
  "dropWhile (\<lambda>s. s = []) ss = t # ts \<Longrightarrow> t \<noteq> [] \<and> concat ss = t @ concat ts"
  by (induction ss) (auto split: if_splits)

lemma conn_read_pending:
  assumes "conn_read n c = ((bs, e), c')"
  shows "pending c = bs @ pending c'" and "length bs \<le> n"
    and "e = None \<Longrightarrow> 0 < n \<Longrightarrow> bs \<noteq> []" and "e \<noteq> None \<Longrightarrow> bs = [] \<and> e = Some (rerr c)"
    and "e \<noteq> None \<longleftrightarrow> 0 < n \<and> pending c = []"
proof -
  consider "n = 0" | "0 < n" "dropWhile (\<lambda>s. s = []) (inp c) = []"
    | t ts where "0 < n" "dropWhile (\<lambda>s. s = []) (inp c) = t # ts"
    by (cases "dropWhile (\<lambda>s. s = []) (inp c)") auto
  then have "pending c = bs @ pending c' \<and> length bs \<le> n \<and> (e = None \<longrightarrow> 0 < n \<longrightarrow> bs \<noteq> [])
      \<and> (e \<noteq> None \<longrightarrow> bs = [] \<and> e = Some (rerr c)) \<and> (e \<noteq> None \<longleftrightarrow> 0 < n \<and> pending c = [])"
  proof cases
    case 1
    with assms show ?thesis by (auto simp: conn_read_def)
  next
    case 2
    then have "concat (inp c) = []" using concat_dropWhile_Nil [of "inp c"] by simp
    moreover have "conn_read n c = (([], Some (rerr c)), c\<lparr>inp := []\<rparr>)"
      using 2 by (simp add: conn_read_def del: dropWhile_eq_Nil_conv)
    ultimately show ?thesis using 2 assms by (auto simp: pending_def)
  next
    case 3
    with assms dropWhile_Nil_Cons [OF 3(2)] show ?thesis
      by (auto simp: conn_read_def pending_def)
  qed
  then show "pending c = bs @ pending c'" and "length bs \<le> n"
    and "e = None \<Longrightarrow> 0 < n \<Longrightarrow> bs \<noteq> []" and "e \<noteq> None \<Longrightarrow> bs = [] \<and> e = Some (rerr c)"
    and "e \<noteq> None \<longleftrightarrow> 0 < n \<and> pending c = []"
    by auto
qed

lemma conn_read_shrinks:
  assumes "conn_read n c = ((bs, None), c')"
  shows "length (pending c') < length (pending c) \<or> n = 0"
  using conn_read_pending(1,3) [OF assms] by auto

lemma conn_read_frame [frame_simps]:
  "rerr (snd (conn_read n c)) = rerr c" "outp (snd (conn_read n c)) = outp c"
  "wleft (snd (conn_read n c)) = wleft c"
  by (auto simp: conn_read_def split: list.split)

lemma conn_write_frame [frame_simps]:
  "inp (snd (conn_write bs c)) = inp c" "rerr (snd (conn_write bs c)) = rerr c"
  "pending (snd (conn_write bs c)) = pending c"
  by (auto simp: conn_write_def pending_def split: option.split nat.split)

section \<open>Reading an exact number of bytes\<close>

text \<open>
  \<open>io.ReadFull(r, buf)\<close>, the loop of \<open>io.ReadAtLeast\<close>: read until the buffer is full or a
  read fails; an EOF after some bytes is reported as \<open>io.ErrUnexpectedEOF\<close>. The second
  argument is what has been read so far.
\<close>

function read_full_loop ::
    "nat \<Rightarrow> 'b list \<Rightarrow> 'b conn \<Rightarrow> ('b list \<times> goerr option) \<times> 'b conn" where
  "read_full_loop need got c =
     (if need = 0 then ((got, None), c)
      else (case conn_read need c of
              ((bs, None), c') \<Rightarrow> read_full_loop (need - length bs) (got @ bs) c'
            | ((bs, Some e), c') \<Rightarrow>
                ((got @ bs, Some (if e = EOF \<and> got @ bs \<noteq> [] then UnexpectedEOF else e)), c')))"
  by pat_completeness auto
termination
  by (relation "measure (\<lambda>(need, got, c). need)") (auto dest!: sym [THEN conn_read_pending(3)])

declare read_full_loop.simps [simp del]

definition read_full :: "nat \<Rightarrow> 'b conn \<Rightarrow> ('b list \<times> goerr option) \<times> 'b conn" where
  "read_full n c = read_full_loop n [] c"

text \<open>
  The abstract behaviour: the first \<open>n\<close> pending bytes when there are that many, else an
  error with whatever there was. It does not mention the segments.
\<close>

definition full_result :: "nat \<Rightarrow> 'b list \<Rightarrow> 'b list \<Rightarrow> goerr \<Rightarrow> 'b list \<times> goerr option" where
  "full_result n got ps e =
     (if n \<le> length ps then (got @ take n ps, None)
      else (got @ ps, Some (if e = EOF \<and> got @ ps \<noteq> [] then UnexpectedEOF else e)))"

lemma read_full_loop_spec:
  "fst (read_full_loop n got c) = full_result n got (pending c) (rerr c)
   \<and> pending (snd (read_full_loop n got c)) = drop n (pending c)
   \<and> rerr (snd (read_full_loop n got c)) = rerr c \<and> outp (snd (read_full_loop n got c)) = outp c
   \<and> wleft (snd (read_full_loop n got c)) = wleft c"
proof (induction n got c rule: read_full_loop.induct)
  case (1 n got c)
  obtain bs e c' where r: "conn_read n c = ((bs, e), c')" by (metis prod.exhaust)
  note p = conn_read_pending [OF r]
  have fr: "rerr c' = rerr c" "outp c' = outp c" "wleft c' = wleft c"
    using conn_read_frame [of n c] r by auto
  show ?case
  proof (cases "n = 0")
    case True
    then show ?thesis by (simp add: read_full_loop.simps full_result_def)
  next
    case n: False
    show ?thesis
    proof (cases e)
      case None
      have step: "read_full_loop n got c = read_full_loop (n - length bs) (got @ bs) c'"
        using n r None by (simp add: read_full_loop.simps [of n got c])
      have "n \<le> length (pending c) \<longleftrightarrow> n - length bs \<le> length (pending c')"
        using p(1,2) by auto
      then show ?thesis
        using "1.IH" [OF n r [symmetric] refl None] p(1,2) fr unfolding step
        by (auto simp: full_result_def)
    next
      case (Some x)
      then have "bs = []" "x = rerr c" "pending c = []" "pending c' = []"
        using p by auto
      then show ?thesis
        using n r Some fr by (auto simp: read_full_loop.simps [of n got c] full_result_def)
    qed
  qed
qed

lemma read_full_spec:
  "fst (read_full n c) = full_result n [] (pending c) (rerr c)"
  "pending (snd (read_full n c)) = drop n (pending c)"
  by (simp_all add: read_full_def read_full_loop_spec)

lemma read_full_frame [frame_simps]:
  "rerr (snd (read_full n c)) = rerr c" "outp (snd (read_full n c)) = outp c"
  "wleft (snd (read_full n c)) = wleft c"
  by (simp_all add: read_full_def read_full_loop_spec)

text \<open>Two connections that differ only in how their bytes are cut into segments.\<close>

definition same_stream :: "'b conn \<Rightarrow> 'b conn \<Rightarrow> bool" where
  "same_stream c d \<longleftrightarrow> pending c = pending d \<and> rerr c = rerr d \<and> outp c = outp d \<and> wleft c = wleft d"

lemma same_stream_refl [simp]: "same_stream c c"
  by (simp add: same_stream_def)

lemma read_full_cong:
  assumes "same_stream c d"
  shows "fst (read_full n c) = fst (read_full n d)"
    and "same_stream (snd (read_full n c)) (snd (read_full n d))"
  using assms by (simp_all add: same_stream_def read_full_spec frame_simps)

lemma conn_write_cong:
  assumes "same_stream c d"
  shows "fst (conn_write bs c) = fst (conn_write bs d)"
    and "same_stream (snd (conn_write bs c)) (snd (conn_write bs d))"
  using assms
  by (auto simp: same_stream_def conn_write_def pending_def split: option.split nat.split)

section \<open>The contract of a reader\<close>

text \<open>\<open>exactReader.Read\<close> of \<open>authproxy.go\<close>: a \<open>Read\<close> that fills its buffer.\<close>

definition exact_read :: "nat \<Rightarrow> 'b conn \<Rightarrow> ('b list \<times> goerr option) \<times> 'b conn" where
  "exact_read n c = read_full n c"

fun read_seq ::
    "(nat \<Rightarrow> 's \<Rightarrow> ('b list \<times> goerr option) \<times> 's) \<Rightarrow> nat list \<Rightarrow> 's \<Rightarrow> 'b list \<times> 's" where
  "read_seq rd [] s = ([], s)"
| "read_seq rd (n # ns) s =
     (let ((bs, e), s') = rd n s; (rest, s'') = read_seq rd ns s' in (bs @ rest, s''))"

locale byte_source =
  fixes rd :: "nat \<Rightarrow> 's \<Rightarrow> ('b list \<times> goerr option) \<times> 's"
    and rest :: "'s \<Rightarrow> 'b list"
  assumes rd_next: "rd n s = ((bs, oe), s') \<Longrightarrow> rest s = bs @ rest s'"
    and rd_bound: "rd n s = ((bs, oe), s') \<Longrightarrow> length bs \<le> n"
    and rd_fail: "rd n s = ((bs, Some e), s') \<Longrightarrow> rest s' = []"
begin

lemma read_seq_prefix: "rest s = fst (read_seq rd ns s) @ rest (snd (read_seq rd ns s))"
proof (induction ns arbitrary: s)
  case Nil
  show ?case by simp
next
  case (Cons n ns)
  obtain bs e s' where r: "rd n s = ((bs, e), s')" by (metis prod.exhaust)
  then show ?case
    using rd_next [OF r] Cons.IH [of s'] by (simp add: split_beta)
qed

lemma read_seq_bound: "length (fst (read_seq rd ns s)) \<le> sum_list ns"
proof (induction ns arbitrary: s)
  case Nil
  show ?case by simp
next
  case (Cons n ns)
  obtain bs e s' where r: "rd n s = ((bs, e), s')" by (metis prod.exhaust)
  then show ?case
    using rd_bound [OF r] Cons.IH [of s'] by (simp add: split_beta)
qed

lemma read_seq_complete:
  assumes "rd n (snd (read_seq rd ns s)) = ((bs, Some e), s')"
  shows "fst (read_seq rd ns s) @ bs = rest s"
  using read_seq_prefix [of s ns] rd_next [OF assms] rd_fail [OF assms] by simp

end

interpretation plain: byte_source conn_read pending
proof unfold_locales
  fix n :: nat and s s' :: "'a conn" and bs e
  show "conn_read n s = ((bs, e), s') \<Longrightarrow> pending s = bs @ pending s'"
    and "conn_read n s = ((bs, e), s') \<Longrightarrow> length bs \<le> n"
    by (rule conn_read_pending; assumption)+
next
  fix n :: nat and s s' :: "'a conn" and bs e
  assume r: "conn_read n s = ((bs, Some e), s')"
  show "pending s' = []"
    using conn_read_pending(1,5) [OF r] by simp
qed

interpretation exact: byte_source exact_read pending
proof unfold_locales
  fix n :: nat and s s' :: "'a conn" and bs e
  assume r: "exact_read n s = ((bs, e), s')"
  then have f: "(bs, e) = full_result n [] (pending s) (rerr s)" "pending s' = drop n (pending s)"
    using read_full_spec [of n s] by (simp_all add: exact_read_def)
  then show "pending s = bs @ pending s'" "length bs \<le> n"
    by (auto simp: full_result_def split: if_splits)
next
  fix n :: nat and s s' :: "'a conn" and bs e
  assume r: "exact_read n s = ((bs, Some e), s')"
  then have f: "(bs, Some e) = full_result n [] (pending s) (rerr s)"
      "pending s' = drop n (pending s)"
    using read_full_spec [of n s] by (simp_all add: exact_read_def)
  then show "pending s' = []"
    by (auto simp: full_result_def split: if_splits)
qed

end
