(* ===== verification/Auth_Proxy.thy ===== *)
theory Auth_Proxy
  imports Go_Strings Go_Binary Net_Conn
begin

text \<open>
  \<open>cmd/rcpud/authproxy.go\<close>: the factotum conversation that authenticates a client.

  Factotum is outside the repository. One conversation is a list of outcomes, one for each
  request \<open>rpc\<close> sends (\<open>fac_reply\<close>); every statement holds for every such list, so for every
  behaviour of factotum. A request after the last outcome meets a closed channel. The state
  of a conversation (\<open>auth_rpc\<close>) keeps the outcomes to come, the requests sent so far and the
  field \<open>arg\<close> of the Go struct.

  \<open>phase_loop\<close> and \<open>proxy_loop\<close> are the two nested loops of \<open>fauthProxy\<close>; both stop because
  every turn consumes an outcome. The buffer \<open>buf[:n]\<close> of the Go code is the list \<open>got\<close>.
\<close>

section \<open>One request and its reply\<close>

datatype fac_reply =
    Reply string        \<comment> \<open>the request is written and this message is read back\<close>
  | ReplyErr string     \<comment> \<open>the request is written and the read fails\<close>
  | WriteFail string    \<comment> \<open>the write fails\<close>

record auth_rpc =
  replies :: "fac_reply list"
  sent :: "string list"
  arg :: string

definition auth_rpc_max :: nat where
  "auth_rpc_max = 4096"

datatype auth_ret =
  ArOK | ArDone | ArError | ArNeedkey | ArBadkey | ArTooSmall | ArRpcFailure | ArPhase

fun ret_code :: "auth_ret \<Rightarrow> nat" where
  "ret_code ArOK = 0"
| "ret_code ArDone = 1"
| "ret_code ArError = 2"
| "ret_code ArNeedkey = 3"
| "ret_code ArBadkey = 4"
| "ret_code ArTooSmall = 5"
| "ret_code ArRpcFailure = 6"
| "ret_code ArPhase = 7"

definition ar_tab :: "string \<Rightarrow> auth_ret option" where
  "ar_tab = map_of
     [(''ok'', ArOK), (''done'', ArDone), (''error'', ArError), (''needkey'', ArNeedkey),
      (''badkey'', ArBadkey), (''phase'', ArPhase), (''toosmall'', ArTooSmall)]"

text \<open>The verb and the argument of a reply: the split at the first space, when one comes
  after at least one byte.\<close>

definition split_reply :: "string \<Rightarrow> string \<times> string" where
  "split_reply ibuf =
     (case index_byte (CHR '' '') ibuf of
        Some i \<Rightarrow> if i > 0 then (take i ibuf, drop (Suc i) ibuf) else (ibuf, [])
      | None \<Rightarrow> (ibuf, []))"

definition rpc_reply :: "string \<Rightarrow> auth_rpc \<Rightarrow> (auth_ret \<times> string) \<times> auth_rpc" where
  "rpc_reply ibuf r =
     (let (iverb, a) = split_reply ibuf; r' = r\<lparr>arg := a\<rparr>
      in case ar_tab iverb of
           None \<Rightarrow> ((ArRpcFailure, ''malformed rpc response: '' @ ibuf), r')
         | Some ArOK \<Rightarrow> ((ArOK, a), r')
         | Some ArDone \<Rightarrow> ((ArDone, a), r')
         | Some ArError \<Rightarrow>
             ((ArError, if a = [] then ''unspecified rpc error'' else a), r')
         | Some ArPhase \<Rightarrow> ((ArPhase, ''phase error '' @ a), r')
         | Some ArTooSmall \<Rightarrow> ((ArTooSmall, a), r')
         | Some ar \<Rightarrow> ((ar, ''unknown rpc type '' @ itoa_nat (ret_code ar)), r'))"

definition rpc :: "string \<Rightarrow> string \<Rightarrow> auth_rpc \<Rightarrow> (auth_ret \<times> string) \<times> auth_rpc" where
  "rpc verb a r =
     (if length verb + 1 + length a > auth_rpc_max then ((ArRpcFailure, ''rpc too big''), r)
      else let msg = verb @ '' '' @ a; r1 = r\<lparr>sent := sent r @ [msg]\<rparr>
      in case replies r of
           [] \<Rightarrow> ((ArRpcFailure, ''read: '' @ err_text EOF), r1)
         | WriteFail e # rs \<Rightarrow> ((ArRpcFailure, ''write: '' @ e), r\<lparr>replies := rs\<rparr>)
         | ReplyErr e # rs \<Rightarrow> ((ArRpcFailure, ''read: '' @ e), r1\<lparr>replies := rs\<rparr>)
         | Reply b # rs \<Rightarrow> rpc_reply (take auth_rpc_max b) (r1\<lparr>replies := rs\<rparr>))"

lemma rpc_reply_frame [frame_simps]:
  "replies (snd (rpc_reply b r)) = replies r" "sent (snd (rpc_reply b r)) = sent r"
  by (auto simp: rpc_reply_def Let_def split: prod.split option.split auth_ret.split)

text \<open>A request that does not fail took a reply, whose verb and argument it returns.\<close>

lemma rpc_success:
  assumes "rpc verb a r = ((ret, msg), r')" and "ret \<noteq> ArRpcFailure"
  shows "\<exists>b rs. replies r = Reply b # rs \<and> replies r' = rs \<and> sent r' = sent r @ [verb @ '' '' @ a]
    \<and> split_reply (take auth_rpc_max b) = (fst (split_reply (take auth_rpc_max b)), arg r')
    \<and> ar_tab (fst (split_reply (take auth_rpc_max b))) = Some ret"
proof -
  obtain b rs where b: "replies r = Reply b # rs"
      and big: "\<not> length verb + 1 + length a > auth_rpc_max"
    using assms by (auto simp: rpc_def Let_def split: if_splits list.splits fac_reply.splits)
  then have "rpc_reply (take auth_rpc_max b)
      (r\<lparr>sent := sent r @ [verb @ '' '' @ a], replies := rs\<rparr>) = ((ret, msg), r')"
    using assms(1) by (simp add: rpc_def Let_def)
  then show ?thesis
    using b assms(2)
    by (auto simp: rpc_reply_def Let_def split: prod.splits option.splits auth_ret.splits)
qed

lemma rpc_progress:
  "rpc verb a r = ((ret, msg), r') \<Longrightarrow> ret \<noteq> ArRpcFailure \<Longrightarrow>
   length (replies r') < length (replies r)"
  by (drule (1) rpc_success) auto

section \<open>The authentication result\<close>

record auth_info =
  cuid :: string
  suid :: string
  cap :: string
  secret :: string

definition gbit16 :: "string \<Rightarrow> nat go" where
  "gbit16 p =
     (if length p < 2 then Panic
      else Ret (unat ((of_char (p ! 0) :: u16) OR push_bit 8 (of_char (p ! 1)))))"

definition gstring :: "string \<Rightarrow> (string \<times> string) go" where
  "gstring buf =
     (if length buf < 2 then Ret (buf, [])
      else go_bind (gbit16 buf) (\<lambda>n.
        let buf = drop 2 buf
        in if length buf < n then Ret (buf, []) else Ret (drop n buf, take n buf)))"

definition garray :: "string \<Rightarrow> (string \<times> string) go" where
  "garray buf =
     (if length buf < 2 then Ret (buf, [])
      else go_bind (gbit16 buf) (\<lambda>n.
        let buf = drop 2 buf
        in if length buf < n then Ret (buf, []) else Ret (drop n buf, take n buf)))"

text \<open>The pointer it returns is never nil, so the result is always \<open>Some\<close>.\<close>

definition conv_m2ai :: "string \<Rightarrow> auth_info option go" where
  "conv_m2ai buf =
     go_bind (gstring buf) (\<lambda>(buf, cu).
     go_bind (gstring buf) (\<lambda>(buf, su).
     go_bind (gstring buf) (\<lambda>(buf, cp).
     go_bind (garray buf) (\<lambda>(buf, se).
       Ret (Some \<lparr>cuid = cu, suid = su, cap = cp, secret = se\<rparr>)))))"

datatype auth_error =
    OpenRPC string
  | StartFailed string
  | AuthInfoFailed string
  | BadAuthInfo
  | WireWrite goerr
  | PhaseWrite string
  | PhaseAtoi string
  | WantsTooMany int
  | AlreadyHave int nat
  | PhaseRead goerr
  | RpcFailed string

definition get_info :: "auth_rpc \<Rightarrow> (auth_error + auth_info) go \<times> auth_rpc" where
  "get_info r =
     (let ((ret, msg), r1) = rpc ''authinfo'' '''' r
      in if ret \<noteq> ArOK then (Ret (Inl (AuthInfoFailed msg)), r1)
         else (go_bind (conv_m2ai (arg r1)) (\<lambda>ai.
                 case ai of None \<Rightarrow> Ret (Inl BadAuthInfo) | Some i \<Rightarrow> Ret (Inr i)), r1))"

section \<open>The proxy loops\<close>

text \<open>\<open>case arPhase\<close>: offer what has been read; when factotum says it is too small, read exactly
  the missing bytes from the wire and offer again.\<close>

function phase_loop ::
    "string \<Rightarrow> auth_rpc \<Rightarrow> char conn \<Rightarrow> (auth_error + unit) go \<times> auth_rpc \<times> char conn" where
  "phase_loop got r w =
     (case rpc ''write'' got r of ((ret2, msg2), r1) \<Rightarrow>
        if ret2 \<noteq> ArTooSmall then
          (if ret2 \<noteq> ArOK then (Ret (Inl (PhaseWrite msg2)), r1, w) else (Ret (Inr ()), r1, w))
        else (case atoi (trim_space (arg r1)) of
            None \<Rightarrow> (Ret (Inl (PhaseAtoi (trim_space (arg r1)))), r1, w)
          | Some need \<Rightarrow>
              if need > int auth_rpc_max then (Ret (Inl (WantsTooMany need)), r1, w)
              else if need - int (length got) \<le> 0 then
                (Ret (Inl (AlreadyHave need (length got))), r1, w)
              else if \<not> slice_ok (length got) (nat need) auth_rpc_max then (Panic, r1, w)
              else (case read_full (nat need - length got) w of
                  ((bs, Some e), w1) \<Rightarrow> (Ret (Inl (PhaseRead e)), r1, w1)
                | ((bs, None), w1) \<Rightarrow> phase_loop (got @ bs) r1 w1)))"
  by pat_completeness auto
termination
  by (relation "measure (\<lambda>(got, r, w). length (replies r))")
     (auto dest!: sym [THEN rpc_progress])

declare phase_loop.simps [simp del]

lemma phase_loop_replies:
  "length (replies (fst (snd (phase_loop got r w)))) \<le> length (replies r)"
proof (induction got r w rule: phase_loop.induct)
  case (1 got r w)
  obtain ret msg r1 where r1: "rpc ''write'' got r = ((ret, msg), r1)" by (metis prod.exhaust)
  have le: "length (replies r1) \<le> length (replies r)"
    using r1 by (auto simp: rpc_def Let_def frame_simps
        dest!: arg_cong [where f = "\<lambda>x. replies (snd x)"]
        split: if_splits list.splits fac_reply.splits)
  show ?case
    using "1.IH" [OF r1 [symmetric] refl] le
    by (subst phase_loop.simps)
       (force simp: r1 split: option.split prod.split intro: order_trans)
qed

lemma phase_loop_replies_le:
  "phase_loop got r w = (res, r', w') \<Longrightarrow> length (replies r') \<le> length (replies r)"
  using phase_loop_replies [of got r w] by simp

function proxy_loop ::
    "auth_rpc \<Rightarrow> char conn \<Rightarrow> (auth_error + auth_info) go \<times> auth_rpc \<times> char conn" where
  "proxy_loop r w =
     (case rpc ''read'' '''' r of ((ret, msg), r1) \<Rightarrow>
        if ret = ArDone then (case get_info r1 of (res, r2) \<Rightarrow> (res, r2, w))
        else if ret = ArOK then
          (case conn_write (arg r1) w of
             (Some e, w1) \<Rightarrow> (Ret (Inl (WireWrite e)), r1, w1)
           | (None, w1) \<Rightarrow> proxy_loop r1 w1)
        else if ret = ArPhase then
          (case phase_loop [] r1 w of
             (Panic, r2, w1) \<Rightarrow> (Panic, r2, w1)
           | (Ret (Inl e), r2, w1) \<Rightarrow> (Ret (Inl e), r2, w1)
           | (Ret (Inr _), r2, w1) \<Rightarrow> proxy_loop r2 w1)
        else (Ret (Inl (RpcFailed msg)), r1, w))"
  by pat_completeness auto
termination
  by (relation "measure (\<lambda>(r, w). length (replies r))")
     (auto dest!: sym [THEN rpc_progress] sym [THEN phase_loop_replies_le])

declare proxy_loop.simps [simp del]

definition fauth_proxy ::
    "string \<Rightarrow> auth_rpc \<Rightarrow> char conn \<Rightarrow> (auth_error + auth_info) go \<times> auth_rpc \<times> char conn" where
  "fauth_proxy params r w =
     (case rpc ''start'' params r of ((ret, msg), r1) \<Rightarrow>
        if ret \<noteq> ArOK then (Ret (Inl (StartFailed msg)), r1, w) else proxy_loop r1 w)"

text \<open>\<open>proxyAuth\<close>: open the channel (the left is a failure to open it), then run the proxy.\<close>

definition proxy_auth ::
    "string \<Rightarrow> (string + fac_reply list) \<Rightarrow> char conn
     \<Rightarrow> (auth_error + auth_info) go \<times> string list \<times> char conn" where
  "proxy_auth keyspec factotum w =
     (case factotum of
        Inl e \<Rightarrow> (Ret (Inl (OpenRPC e)), [], w)
      | Inr rs \<Rightarrow>
          (case fauth_proxy keyspec \<lparr>replies = rs, sent = [], arg = []\<rparr> w of
             (res, r, w1) \<Rightarrow> (res, sent r, w1)))"

section \<open>Decoding the authentication result\<close>

text \<open>The wire form that \<open>convM2AI\<close> reads: each field behind its length, two bytes, low byte
  first.\<close>

definition enc_field :: "string \<Rightarrow> string" where
  "enc_field s = [char_of (length s mod 256), char_of (length s div 256)] @ s"

definition enc_auth_info :: "auth_info \<Rightarrow> string" where
  "enc_auth_info ai =
     enc_field (cuid ai) @ enc_field (suid ai) @ enc_field (cap ai) @ enc_field (secret ai)"

definition fields_fit :: "auth_info \<Rightarrow> bool" where
  "fields_fit ai \<longleftrightarrow>
     (\<forall>s \<in> {cuid ai, suid ai, cap ai, secret ai}. length s < 65536)"

lemma of_char_u16: "(of_char c :: u16) = of_nat (of_char c)"
  by (simp add: of_nat_of_char)

lemma gbit16_val:
  "gbit16 (c # d # p) = Ret (of_char c + 256 * of_char d)"
  by (simp add: gbit16_def of_char_u16 unat_or_shift)

lemma gbit16_no_panic: "gbit16 p = Panic \<longleftrightarrow> length p < 2"
  by (simp add: gbit16_def)

lemma garray_eq_gstring: "garray = gstring"
  by (simp add: fun_eq_iff garray_def gstring_def)

lemma gstring_enc:
  assumes "length s < 65536"
  shows "gstring (enc_field s @ rest) = Ret (rest, s)"
proof -
  have "length s div 256 < 256" using assms by simp
  then show ?thesis
    by (simp add: gstring_def enc_field_def gbit16_val Let_def)
qed

lemma gstring_no_panic [simp]: "gstring buf \<noteq> Panic"
  by (auto simp: gstring_def gbit16_def Let_def go_simps)

lemma gstring_empty: "gstring [] = Ret ([], [])"
  by (simp add: gstring_def)

lemma conv_m2ai_no_panic: "conv_m2ai buf \<noteq> Panic"
  by (auto simp: conv_m2ai_def garray_eq_gstring go_simps)

lemma conv_m2ai_not_None: "conv_m2ai buf \<noteq> Ret None"
  by (auto simp: conv_m2ai_def go_simps)

lemma gstring_shrinks:
  assumes "gstring buf = Ret (rest, s)"
  shows "length rest + length s \<le> length buf \<and> length s < 65536"
proof (cases buf)
  case Nil
  with assms show ?thesis by (simp add: gstring_def)
next
  case (Cons c cs)
  have lim: "of_char x + 256 * of_char y < (65536 :: nat)" for x y
    using nat_of_char_less_256 [of x] nat_of_char_less_256 [of y] by linarith
  from assms Cons show ?thesis
    by (cases cs) (auto simp: gstring_def gbit16_val Let_def intro: le_less_trans [OF _ lim]
        split: if_splits)
qed

lemma conv_m2ai_fits:
  assumes "conv_m2ai buf = Ret (Some ai)"
  shows "fields_fit ai
    \<and> length (cuid ai) + length (suid ai) + length (cap ai) + length (secret ai) \<le> length buf"
  using assms
  by (auto simp: conv_m2ai_def garray_eq_gstring fields_fit_def go_simps dest!: gstring_shrinks)

section \<open>The phase loop\<close>

text \<open>One turn, as three lemmas: the reply ends the phase, the request is refused, or bytes are
  read and the loop goes on.\<close>

lemma phase_loop_final:
  assumes "rpc ''write'' got r = ((ret, msg), r1)" and "ret \<noteq> ArTooSmall"
  shows "phase_loop got r w =
    (Ret (if ret = ArOK then Inr () else Inl (PhaseWrite msg)), r1, w)"
  using assms by (simp add: phase_loop.simps)

lemma phase_loop_more:
  assumes "rpc ''write'' got r = ((ArTooSmall, msg), r1)"
    and "atoi (trim_space (arg r1)) = Some need"
    and "int (length got) < need" and "need \<le> int auth_rpc_max"
  shows "phase_loop got r w =
    (case read_full (nat need - length got) w of
       ((bs, Some e), w1) \<Rightarrow> (Ret (Inl (PhaseRead e)), r1, w1)
     | ((bs, None), w1) \<Rightarrow> phase_loop (got @ bs) r1 w1)"
proof -
  have "slice_ok (length got) (nat need) auth_rpc_max"
    using assms(3,4) by (auto simp: slice_ok_def)
  then show ?thesis
    using assms by (subst phase_loop.simps) simp
qed

lemma phase_loop_refused:
  assumes "rpc ''write'' got r = ((ArTooSmall, msg), r1)"
    and "\<And>need. atoi (trim_space (arg r1)) = Some need \<Longrightarrow>
      need > int auth_rpc_max \<or> need \<le> int (length got)"
  shows "\<exists>e. (\<forall>w. phase_loop got r w = (Ret (Inl e), r1, w))"
proof (cases "atoi (trim_space (arg r1))")
  case None
  then show ?thesis using assms(1) by (auto simp: phase_loop.simps)
next
  case (Some need)
  then show ?thesis
    using assms(1) assms(2) [OF Some]
    by (cases "need > int auth_rpc_max") (auto simp: phase_loop.simps [of got r])
qed

text \<open>Induction over the turns of the loop, with the three kinds of turn as cases.\<close>

lemma phase_loop_induct [case_names final refused more]:
  assumes "\<And>got r w ret msg r1. rpc ''write'' got r = ((ret, msg), r1) \<Longrightarrow> ret \<noteq> ArTooSmall \<Longrightarrow>
      phase_loop got r w = (Ret (if ret = ArOK then Inr () else Inl (PhaseWrite msg)), r1, w) \<Longrightarrow>
      P got r w"
    and "\<And>got r w msg r1 e. rpc ''write'' got r = ((ArTooSmall, msg), r1) \<Longrightarrow>
      (\<And>v. phase_loop got r v = (Ret (Inl e), r1, v)) \<Longrightarrow> P got r w"
    and "\<And>got r w msg r1 need. rpc ''write'' got r = ((ArTooSmall, msg), r1) \<Longrightarrow>
      int (length got) < need \<Longrightarrow> need \<le> int auth_rpc_max \<Longrightarrow>
      (\<And>v. phase_loop got r v =
        (case read_full (nat need - length got) v of
           ((bs, Some e), w1) \<Rightarrow> (Ret (Inl (PhaseRead e)), r1, w1)
         | ((bs, None), w1) \<Rightarrow> phase_loop (got @ bs) r1 w1)) \<Longrightarrow>
      (\<And>bs w1. read_full (nat need - length got) w = ((bs, None), w1) \<Longrightarrow> P (got @ bs) r1 w1) \<Longrightarrow>
      P got r w"
  shows "P got r w"
proof (induction "length (replies r)" arbitrary: got r w rule: less_induct)
  case less
  obtain ret msg r1 where r1: "rpc ''write'' got r = ((ret, msg), r1)" by (metis prod.exhaust)
  show ?case
  proof (cases "ret = ArTooSmall")
    case False
    then show ?thesis using assms(1) [OF r1] phase_loop_final [OF r1] by blast
  next
    case True
    note r2 = r1 [unfolded True]
    have "length (replies r1) < length (replies r)" by (rule rpc_progress [OF r2]) simp
    note IH = less [OF this]
    show ?thesis
    proof (cases "\<exists>need. atoi (trim_space (arg r1)) = Some need \<and>
        int (length got) < need \<and> need \<le> int auth_rpc_max")
      case True
      then obtain need where n: "atoi (trim_space (arg r1)) = Some need"
        "int (length got) < need" "need \<le> int auth_rpc_max" by blast
      show ?thesis by (rule assms(3) [OF r2 n(2,3) phase_loop_more [OF r2 n] IH])
    next
      case False
      then show ?thesis using phase_loop_refused [OF r2] assms(2) [OF r2] by (metis not_less)
    qed
  qed
qed

lemma phase_loop_no_panic: "fst (phase_loop got r w) \<noteq> Panic"
  by (induction got r w rule: phase_loop_induct)
     (auto split: prod.split option.split)

lemma phase_loop_cong:
  assumes "same_stream w v"
  shows "fst (phase_loop got r w) = fst (phase_loop got r v)
    \<and> fst (snd (phase_loop got r w)) = fst (snd (phase_loop got r v))
    \<and> same_stream (snd (snd (phase_loop got r w))) (snd (snd (phase_loop got r v)))"
  using assms
proof (induction got r w arbitrary: v rule: phase_loop_induct)
  case (final got r w ret msg r1)
  then show ?case using phase_loop_final [OF final(1,2)] by simp
next
  case (refused got r w msg r1 e)
  then show ?case by simp
next
  case (more got r w msg r1 need)
  note c = read_full_cong [OF more.prems, of "nat need - length got"]
  obtain bs oe w1 where w: "read_full (nat need - length got) w = ((bs, oe), w1)"
    by (metis prod.exhaust)
  then obtain v1 where v: "read_full (nat need - length got) v = ((bs, oe), v1)"
    using c(1) by (metis fst_conv prod.exhaust)
  have s: "same_stream w1 v1" using c(2) w v by simp
  show ?case
  proof (cases oe)
    case None
    then show ?thesis
      using more.IH [of bs w1 v1] s w v by (simp add: more.hyps)
  next
    case (Some e)
    then show ?thesis using s w v by (simp add: more.hyps)
  qed
qed

text \<open>What factotum gets in the accepted request is exactly what left the wire.\<close>

lemma phase_loop_exact_gen:
  assumes "phase_loop got r w = (Ret (Inr u), r', w')"
  shows "\<exists>bs. pending w = bs @ pending w' \<and> last (sent r') = ''write '' @ got @ bs
    \<and> length (got @ bs) \<le> auth_rpc_max \<and> outp w' = outp w"
  using assms
proof (induction got r w arbitrary: u r' w' rule: phase_loop_induct)
  case (final got r w ret msg r1)
  then have "r' = r1" "w' = w" "ret = ArOK" by (auto split: if_splits)
  moreover have "length got \<le> auth_rpc_max"
    using final(1) \<open>ret = ArOK\<close> by (auto simp: rpc_def split: if_splits)
  ultimately show ?case
    using rpc_success [OF final(1)] by auto
next
  case (refused got r w msg r1 e)
  then show ?case by simp
next
  case (more got r w msg r1 need)
  obtain bs oe w1 where w: "read_full (nat need - length got) w = ((bs, oe), w1)"
    by (metis prod.exhaust)
  have p: "pending w1 = drop (nat need - length got) (pending w)" "outp w1 = outp w"
    using read_full_spec [of "nat need - length got" w] read_full_frame [of "nat need - length got" w] w
    by auto
  show ?case
  proof (cases oe)
    case None
    then have "bs = take (nat need - length got) (pending w)"
      using read_full_spec(1) [of "nat need - length got" w] w
      by (auto simp: full_result_def split: if_splits)
    then have "pending w = bs @ pending w1" using p by simp
    moreover have "phase_loop (got @ bs) r1 w1 = (Ret (Inr u), r', w')"
      using more.prems more.hyps(4) w None by simp
    ultimately show ?thesis
      using more.IH [of bs w1] w None p(2) by fastforce
  next
    case (Some e)
    then show ?thesis using more.prems more.hyps(4) w by simp
  qed
qed

lemma phase_loop_not_bad: "fst (phase_loop got r w) \<noteq> Ret (Inl BadAuthInfo)"
proof (induction got r w rule: phase_loop.induct)
  case (1 got r w)
  show ?case
    by (subst phase_loop.simps) (use "1.IH" in \<open>auto split: prod.split option.split\<close>)
qed

section \<open>The outer loop\<close>

lemma get_info_no_panic: "fst (get_info r) \<noteq> Panic"
  by (auto simp: get_info_def Let_def go_simps conv_m2ai_no_panic split: prod.split option.splits)

lemma get_info_not_bad: "fst (get_info r) \<noteq> Ret (Inl BadAuthInfo)"
  by (auto simp: get_info_def Let_def go_simps conv_m2ai_not_None split: prod.split option.splits)

lemma get_info_success:
  assumes "get_info r = (Ret (Inr ai), r')"
  shows "\<exists>b. replies r = Reply b # replies r' \<and> sent r' = sent r @ [''authinfo '']
    \<and> fst (split_reply (take auth_rpc_max b)) = ''ok''
    \<and> conv_m2ai (snd (split_reply (take auth_rpc_max b))) = Ret (Some ai)"
proof -
  obtain ret msg r1 where r1: "rpc ''authinfo'' '''' r = ((ret, msg), r1)" by (metis prod.exhaust)
  then have ok: "ret = ArOK" "r' = r1" "conv_m2ai (arg r1) = Ret (Some ai)"
    using assms by (auto simp: get_info_def go_simps split: if_splits option.splits)
  from rpc_success [OF r1] ok obtain b where
    "replies r = Reply b # replies r1" "sent r1 = sent r @ [''authinfo '']"
    "split_reply (take auth_rpc_max b) = (fst (split_reply (take auth_rpc_max b)), arg r1)"
    "ar_tab (fst (split_reply (take auth_rpc_max b))) = Some ArOK"
    by auto
  moreover from this(4) have "fst (split_reply (take auth_rpc_max b)) = ''ok''"
    by (auto simp: ar_tab_def split: if_splits)
  ultimately show ?thesis
    using ok by (metis snd_conv)
qed

text \<open>Induction over the turns of the outer loop: the end, a write to the wire, a phase.\<close>

lemma proxy_loop_induct [case_names finish failed wire phase]:
  assumes "\<And>r w msg r1. rpc ''read'' '''' r = ((ArDone, msg), r1) \<Longrightarrow>
      (\<And>v. proxy_loop r v = (fst (get_info r1), snd (get_info r1), v)) \<Longrightarrow> P r w"
    and "\<And>r w e r1. (\<And>v. proxy_loop r v = (Ret (Inl (RpcFailed e)), r1, v)) \<Longrightarrow> P r w"
    and "\<And>r w msg r1. rpc ''read'' '''' r = ((ArOK, msg), r1) \<Longrightarrow>
      (\<And>v. proxy_loop r v = (case conn_write (arg r1) v of
             (Some e, w1) \<Rightarrow> (Ret (Inl (WireWrite e)), r1, w1)
           | (None, w1) \<Rightarrow> proxy_loop r1 w1)) \<Longrightarrow>
      (\<And>w1. conn_write (arg r1) w = (None, w1) \<Longrightarrow> P r1 w1) \<Longrightarrow> P r w"
    and "\<And>r w msg r1. rpc ''read'' '''' r = ((ArPhase, msg), r1) \<Longrightarrow>
      (\<And>v. proxy_loop r v = (case phase_loop [] r1 v of
             (Panic, r2, w1) \<Rightarrow> (Panic, r2, w1)
           | (Ret (Inl e), r2, w1) \<Rightarrow> (Ret (Inl e), r2, w1)
           | (Ret (Inr _), r2, w1) \<Rightarrow> proxy_loop r2 w1)) \<Longrightarrow>
      (\<And>r2 w1 u. phase_loop [] r1 w = (Ret (Inr u), r2, w1) \<Longrightarrow> P r2 w1) \<Longrightarrow> P r w"
  shows "P r w"
proof (induction "length (replies r)" arbitrary: r w rule: less_induct)
  case (less r w)
  obtain ret msg r1 where r1: "rpc ''read'' '''' r = ((ret, msg), r1)" by (metis prod.exhaust)
  consider "ret = ArDone" | "ret = ArOK" | "ret = ArPhase"
    | "ret \<noteq> ArDone" "ret \<noteq> ArOK" "ret \<noteq> ArPhase" by blast
  then show ?case
  proof cases
    case 1
    show ?thesis
      by (rule assms(1) [OF r1 [unfolded 1]])
         (simp add: proxy_loop.simps r1 1 split_beta)
  next
    case 2
    have "length (replies r1) < length (replies r)"
      using rpc_progress [OF r1] 2 by simp
    note IH = less [OF this]
    show ?thesis
      by (rule assms(3) [OF r1 [unfolded 2] _ IH])
         (subst proxy_loop.simps, simp add: r1 2)
  next
    case 3
    have d: "length (replies r1) < length (replies r)"
      using rpc_progress [OF r1] 3 by simp
    have IH: "P r2 w1" if "phase_loop [] r1 w = (Ret (Inr u), r2, w1)" for r2 w1 u
      using phase_loop_replies_le [OF that] d less by (meson le_less_trans)
    show ?thesis
    proof (rule assms(4) [of r msg r1 w, OF r1 [unfolded 3]], goal_cases)
      case 1
      show ?case by (subst proxy_loop.simps) (simp add: r1 3)
    next
      case 2
      then show ?case by (rule IH)
    qed
  next
    case 4
    then have "\<And>v. proxy_loop r v = (Ret (Inl (RpcFailed msg)), r1, v)"
      by (subst proxy_loop.simps) (simp add: r1)
    then show ?thesis by (rule assms(2))
  qed
qed

lemma proxy_loop_no_panic: "fst (proxy_loop r w) \<noteq> Panic"
proof (induction r w rule: proxy_loop_induct)
  case (wire r w msg r1)
  then show ?case by (auto split: prod.split option.split)
next
  case (phase r w msg r1)
  then show ?case
    using phase_loop_no_panic [of "[]" r1 w]
    by (auto split: prod.split option.split go.split sum.split)
qed (auto simp: get_info_no_panic)

lemma proxy_loop_not_bad: "fst (proxy_loop r w) \<noteq> Ret (Inl BadAuthInfo)"
proof (induction r w rule: proxy_loop_induct)
  case (wire r w msg r1)
  then show ?case by (auto split: prod.split option.split)
next
  case (phase r w msg r1)
  then show ?case using phase_loop_not_bad [of "[]" r1 w]
    by (auto split: prod.split option.split go.split sum.split)
qed (auto simp: get_info_not_bad)

lemma proxy_loop_cong:
  assumes "same_stream w v"
  shows "fst (proxy_loop r w) = fst (proxy_loop r v)
    \<and> fst (snd (proxy_loop r w)) = fst (snd (proxy_loop r v))
    \<and> same_stream (snd (snd (proxy_loop r w))) (snd (snd (proxy_loop r v)))"
  using assms
proof (induction r w arbitrary: v rule: proxy_loop_induct)
  case (wire r w msg r1)
  note c = conn_write_cong [OF wire.prems, of "arg r1"]
  obtain oe w1 where w: "conn_write (arg r1) w = (oe, w1)" by (metis prod.exhaust)
  then obtain v1 where v: "conn_write (arg r1) v = (oe, v1)"
    using c(1) by (metis fst_conv prod.exhaust)
  have "same_stream w1 v1" using c(2) w v by simp
  then show ?case using wire.IH [of w1 v1] w v by (cases oe) (simp_all add: wire.hyps)
next
  case (phase r w msg r1)
  note c = phase_loop_cong [OF phase.prems, of "[]" r1]
  obtain res r2 w1 where w: "phase_loop [] r1 w = (res, r2, w1)" by (metis prod.exhaust)
  then obtain v1 where v: "phase_loop [] r1 v = (res, r2, v1)"
    using c by (metis fst_conv snd_conv prod.exhaust)
  have s: "same_stream w1 v1" using c w v by simp
  show ?case
  proof (cases res)
    case (Ret x)
    then show ?thesis using s w v phase.IH [of _ r2 w1 v1] by (cases x) (simp_all add: phase.hyps)
  next
    case Panic
    then show ?thesis using s w v by (simp add: phase.hyps)
  qed
qed simp_all

section \<open>The record of a conversation\<close>

text \<open>A later state of a conversation: a part of the outcomes is used up, requests were added.\<close>

definition extends :: "auth_rpc \<Rightarrow> auth_rpc \<Rightarrow> bool" where
  "extends r r' \<longleftrightarrow> (\<exists>pre. replies r = pre @ replies r') \<and> (\<exists>m. sent r' = sent r @ m)"

lemma extends_refl [simp]: "extends r r"
  by (simp add: extends_def)

lemma extends_trans: "extends r s \<Longrightarrow> extends s t \<Longrightarrow> extends r t"
  by (auto simp: extends_def)

lemma rpc_extends: "rpc verb a r = ((ret, msg), r') \<Longrightarrow> extends r r'"
  by (auto simp: rpc_def extends_def Let_def frame_simps
      dest!: arg_cong [where f = "\<lambda>x. (replies (snd x), sent (snd x))"]
      split: if_splits list.splits fac_reply.splits; metis)

lemma phase_loop_extends: "extends r (fst (snd (phase_loop got r w)))"
proof (induction got r w rule: phase_loop_induct)
  case (final got r w ret msg r1)
  then show ?case by (simp add: rpc_extends)
next
  case (refused got r w msg r1 e)
  then show ?case by (simp add: rpc_extends)
next
  case (more got r w msg r1 need)
  then show ?case
    by (auto split: prod.split option.split intro: extends_trans rpc_extends)
qed

abbreviation reply_verb :: "string \<Rightarrow> string" where
  "reply_verb b \<equiv> fst (split_reply (take auth_rpc_max b))"

abbreviation reply_arg :: "string \<Rightarrow> string" where
  "reply_arg b \<equiv> snd (split_reply (take auth_rpc_max b))"

definition ended_authentic :: "auth_rpc \<Rightarrow> auth_rpc \<Rightarrow> auth_info \<Rightarrow> bool" where
  "ended_authentic r r' ai \<longleftrightarrow>
     (\<exists>pre d a. replies r = pre @ Reply d # Reply a # replies r' \<and> reply_verb d = ''done''
        \<and> reply_verb a = ''ok'' \<and> conv_m2ai (reply_arg a) = Ret (Some ai))
     \<and> (\<exists>mid. sent r' = sent r @ mid @ [''read '', ''authinfo ''])"

lemma ended_authentic_extends:
  "extends r r1 \<Longrightarrow> ended_authentic r1 r' ai \<Longrightarrow> ended_authentic r r' ai"
  unfolding ended_authentic_def extends_def by (metis append_assoc)

lemma proxy_loop_authentic:
  assumes "proxy_loop r w = (Ret (Inr ai), r', w')"
  shows "ended_authentic r r' ai"
  using assms
proof (induction r w arbitrary: w' rule: proxy_loop_induct)
  case (finish r w msg r1)
  from rpc_success [OF finish.hyps(1)] obtain d where
    d: "replies r = Reply d # replies r1" "sent r1 = sent r @ [''read '']"
      "ar_tab (reply_verb d) = Some ArDone" by auto
  then have "reply_verb d = ''done''" by (auto simp: ar_tab_def split: if_splits)
  moreover have "get_info r1 = (Ret (Inr ai), r')"
    using finish.prems finish.hyps(2) by (simp add: prod_eq_iff)
  ultimately show ?case
    using get_info_success [of r1 ai r'] d unfolding ended_authentic_def by fastforce
next
  case (failed r w e r1)
  then show ?case by simp
next
  case (wire r w msg r1)
  then show ?case
    by (auto split: prod.splits option.splits
        intro: ended_authentic_extends [OF rpc_extends [OF wire.hyps(1)]])
next
  case (phase r w msg r1)
  obtain res r2 w1 where p: "phase_loop [] r1 w = (res, r2, w1)" by (metis prod.exhaust)
  have e: "extends r r2"
    using rpc_extends [OF phase.hyps(1)] phase_loop_extends [of r1 "[]" w] p
    by (auto intro: extends_trans)
  show ?case
    using phase.prems phase.hyps(2) [of w] p phase.IH [of _ r2 w1]
    by (auto split: go.splits sum.splits intro: ended_authentic_extends [OF e])
qed

section \<open>Properties\<close>

lemma proxy_auth_identity:
  assumes "proxy_auth keyspec (Inr rs) w = (Ret (Inr ai), log, w')"
  shows "\<exists>pre d a post. rs = pre @ Reply d # Reply a # post \<and> reply_verb d = ''done''
      \<and> reply_verb a = ''ok'' \<and> conv_m2ai (reply_arg a) = Ret (Some ai)
      \<and> (\<exists>mid. log = (''start '' @ keyspec) # mid @ [''read '', ''authinfo ''])"
proof -
  let ?r = "\<lparr>replies = rs, sent = [], arg = []\<rparr>"
  obtain ret msg r1 where r1: "rpc ''start'' keyspec ?r = ((ret, msg), r1)"
    by (metis prod.exhaust)
  obtain r' where run: "fauth_proxy keyspec ?r w = (Ret (Inr ai), r', w')" "log = sent r'"
    using assms by (auto simp: proxy_auth_def split: prod.splits)
  then have "ret = ArOK" and "proxy_loop r1 w = (Ret (Inr ai), r', w')"
    using r1 by (auto simp: fauth_proxy_def split: if_splits)
  then have e: "ended_authentic r1 r' ai" by (blast intro: proxy_loop_authentic)
  from rpc_success [OF r1] \<open>ret = ArOK\<close> obtain b where
    "rs = Reply b # replies r1" "sent r1 = [''start '' @ keyspec]" by auto
  with e run(2) show ?thesis
    unfolding ended_authentic_def by (metis append_Cons append_Nil)
qed

text \<open>Claim C2. An identity comes out of \<open>proxyAuth\<close> only at the end of a conversation in which
  factotum answered \<open>done\<close> to a \<open>read\<close> request and then \<open>ok\<close> to the \<open>authinfo\<close> request that
  follows it at once; the identity is what that last reply decodes to, and the first request
  was \<open>start\<close> with the key specification.\<close>

theorem proxy_auth_authentic:
  assumes "proxy_auth keyspec (Inr rs) w = (Ret (Inr ai), log, w')"
  shows "\<exists>pre d a post. rs = pre @ Reply d # Reply a # post \<and> reply_verb d = ''done''
      \<and> reply_verb a = ''ok'' \<and> conv_m2ai (reply_arg a) = Ret (Some ai)
      \<and> (\<exists>mid. log = (''start '' @ keyspec) # mid @ [''read '', ''authinfo ''])"
  by (rule proxy_auth_identity [OF assms])

text \<open>A complete conversation: one phase of three bytes, one message to the wire, then done.\<close>

definition demo_info :: auth_info where
  "demo_info = \<lparr>cuid = ''glenda'', suid = ''glenda'', cap = '''', secret = ''key''\<rparr>"

definition demo_replies :: "fac_reply list" where
  "demo_replies =
     [Reply ''ok'', Reply ''ok chal'', Reply ''phase'', Reply ''toosmall 3'', Reply ''ok'',
      Reply ''done'', Reply (''ok '' @ enc_auth_info demo_info)]"

definition demo_log :: "string list" where
  "demo_log =
     [''start dom=x'', ''read '', ''read '', ''write '', ''write abc'', ''read '', ''authinfo '']"

definition demo_conn :: "string list \<Rightarrow> char conn" where
  "demo_conn segs = \<lparr>inp = segs, rerr = EOF, outp = [], wleft = None\<rparr>"

text \<open>Evaluation of a request with a concrete reply, and of the conversation above.\<close>

lemma rpc_step:
  "length verb + 1 + length a \<le> auth_rpc_max \<Longrightarrow> length b \<le> auth_rpc_max \<Longrightarrow>
   rpc verb a \<lparr>replies = Reply b # rs, sent = s, arg = x\<rparr> =
   rpc_reply b \<lparr>replies = rs, sent = s @ [verb @ '' '' @ a], arg = x\<rparr>"
  by (simp add: rpc_def)

lemmas run_simps = rpc_step rpc_reply_def split_reply_def ar_tab_def auth_rpc_max_def
  get_info_def conn_write_def

lemma demo_phase:
  "phase_loop [] \<lparr>replies = Reply ''toosmall 3'' # Reply ''ok'' # rs, sent = s, arg = x\<rparr>
      \<lparr>inp = [''a'', ''bcd''], rerr = EOF, outp = ys, wleft = None\<rparr> =
   (Ret (Inr ()), \<lparr>replies = rs, sent = s @ [''write '', ''write abc''], arg = []\<rparr>,
    \<lparr>inp = [''d''], rerr = EOF, outp = ys, wleft = None\<rparr>)"
proof -
  have "itoa_nat 3 = ''3''" by (simp add: itoa_nat.simps digit_chars)
  then have "atoi (trim_space ''3'') = Some 3" using atoi_trim_itoa [of 3] by simp
  moreover have "read_full 3 \<lparr>inp = [''a'', ''bcd''], rerr = EOF, outp = ys, wleft = None\<rparr> =
      ((''abc'', None), \<lparr>inp = [''d''], rerr = EOF, outp = ys, wleft = None\<rparr>)"
    by (simp add: read_full_def read_full_loop.simps conn_read_def)
  ultimately show ?thesis
    by (simp add: phase_loop.simps run_simps slice_ok_def)
qed

lemma demo_run:
  "proxy_auth ''dom=x'' (Inr demo_replies) (demo_conn [''a'', ''bcd'']) =
     (Ret (Inr demo_info), demo_log, \<lparr>inp = [''d''], rerr = EOF, outp = [''chal''], wleft = None\<rparr>)"
proof -
  have "conv_m2ai (enc_auth_info demo_info) = Ret (Some demo_info)" by code_simp
  moreover have "length (enc_auth_info demo_info) = 23"
    by (simp add: enc_auth_info_def enc_field_def demo_info_def)
  ultimately show ?thesis
    by (simp add: proxy_auth_def fauth_proxy_def run_simps demo_replies_def demo_conn_def
        demo_phase proxy_loop.simps demo_log_def)
qed

theorem proxy_auth_authentic_witness:
  "(\<exists>pre d a post. demo_replies = pre @ Reply d # Reply a # post \<and> reply_verb d = ''done''
      \<and> reply_verb a = ''ok'' \<and> conv_m2ai (reply_arg a) = Ret (Some demo_info)
      \<and> (\<exists>mid. demo_log = (''start '' @ ''dom=x'') # mid @ [''read '', ''authinfo '']))
   \<and> fst (proxy_auth ''dom=x'' (Inr demo_replies) (demo_conn [''a'', ''bcd''])) = Ret (Inr demo_info)"
  using proxy_auth_authentic [OF demo_run] demo_run by simp

text \<open>Claim C5. The result of \<open>proxyAuth\<close>, the requests it sends to factotum and what it leaves
  on the wire depend on the bytes the client sends, not on how the network cuts them into
  segments: this is what reading exactly the number of bytes factotum asks for buys.\<close>

theorem proxy_auth_segmentation:
  assumes "pending w = pending v" and "rerr w = rerr v" and "outp w = outp v" and "wleft w = wleft v"
  shows "fst (proxy_auth keyspec fac w) = fst (proxy_auth keyspec fac v)
    \<and> fst (snd (proxy_auth keyspec fac w)) = fst (snd (proxy_auth keyspec fac v))
    \<and> pending (snd (snd (proxy_auth keyspec fac w))) = pending (snd (snd (proxy_auth keyspec fac v)))
    \<and> outp (snd (snd (proxy_auth keyspec fac w))) = outp (snd (snd (proxy_auth keyspec fac v)))"
proof (cases fac)
  case (Inl e)
  with assms show ?thesis by (simp add: proxy_auth_def)
next
  case (Inr rs)
  let ?r = "\<lparr>replies = rs, sent = [], arg = []\<rparr>"
  have s: "same_stream w v" using assms by (simp add: same_stream_def)
  obtain ret msg r1 where r1: "rpc ''start'' keyspec ?r = ((ret, msg), r1)"
    by (metis prod.exhaust)
  show ?thesis
  proof (cases "ret = ArOK")
    case True
    have "fauth_proxy keyspec ?r u = proxy_loop r1 u" for u
      using r1 True by (simp add: fauth_proxy_def)
    then show ?thesis
      using proxy_loop_cong [OF s, of r1] Inr
      by (simp add: proxy_auth_def same_stream_def split_beta)
  next
    case False
    then have "fauth_proxy keyspec ?r u = (Ret (Inl (StartFailed msg)), r1, u)" for u
      using r1 by (simp add: fauth_proxy_def)
    then show ?thesis using assms Inr by (simp add: proxy_auth_def)
  qed
qed

theorem proxy_auth_segmentation_witness:
  "fst (proxy_auth ''dom=x'' (Inr demo_replies) (demo_conn [''abcd''])) = Ret (Inr demo_info)
   \<and> fst (snd (proxy_auth ''dom=x'' (Inr demo_replies) (demo_conn [''abcd'']))) = demo_log"
  using proxy_auth_segmentation [of "demo_conn [''abcd'']" "demo_conn [''a'', ''bcd'']"
      "''dom=x''" "Inr demo_replies"] demo_run
  by (simp add: demo_conn_def pending_def)

lemma proxy_auth_returns: "fst (proxy_auth keyspec fac w) \<noteq> Panic"
  using proxy_loop_no_panic
  by (auto simp: proxy_auth_def fauth_proxy_def split: sum.split prod.split)
     (metis fst_conv)+

text \<open>Claim C20. No input from factotum or from the wire makes the authentication code panic: no
  slice of its 4096-byte buffer and no length field is read out of range.\<close>

theorem proxy_auth_no_panic: "fst (proxy_auth keyspec fac w) \<noteq> Panic"
  by (rule proxy_auth_returns)

text \<open>Claim C19. A phase that succeeds hands factotum exactly the bytes that left the wire: the
  last request is \<open>write\<close> with those bytes, what follows them stays on the wire, and nothing is
  written to the wire meanwhile.\<close>

theorem phase_loop_exact:
  assumes "phase_loop [] r w = (Ret (Inr u), r', w')"
  shows "\<exists>bs. pending w = bs @ pending w' \<and> last (sent r') = ''write '' @ bs
    \<and> length bs \<le> auth_rpc_max \<and> outp w' = outp w"
  using phase_loop_exact_gen [OF assms] by simp

theorem phase_loop_exact_witness:
  "\<exists>r' w'. phase_loop [] \<lparr>replies = [Reply ''toosmall 3'', Reply ''ok''], sent = [], arg = []\<rparr>
        (demo_conn [''a'', ''bcd'']) = (Ret (Inr ()), r', w')
    \<and> (\<exists>bs. pending (demo_conn [''a'', ''bcd'']) = bs @ pending w' \<and> last (sent r') = ''write '' @ bs)"
  using phase_loop_exact [OF demo_phase [of "[]" "[]" "[]" "[]"]] demo_phase [of "[]" "[]" "[]" "[]"]
  unfolding demo_conn_def by blast

text \<open>Claim C21. \<open>convM2AI\<close> reads back every identity whose four fields are shorter than 65536
  bytes, whatever follows the encoding.\<close>

theorem conv_m2ai_roundtrip:
  assumes "fields_fit ai"
  shows "conv_m2ai (enc_auth_info ai @ junk) = Ret (Some ai)"
  using assms
  by (simp add: conv_m2ai_def enc_auth_info_def garray_eq_gstring fields_fit_def gstring_enc)

theorem conv_m2ai_roundtrip_witness:
  "conv_m2ai (enc_auth_info demo_info @ ''xyz'') = Ret (Some demo_info)"
  using conv_m2ai_roundtrip [of demo_info "''xyz''"] by (simp add: fields_fit_def demo_info_def)

lemma proxy_auth_empty_reply:
  assumes "length keyspec \<le> 4000"
  shows "\<exists>log. proxy_auth keyspec (Inr [Reply ''ok'', Reply ''done'', Reply ''ok'']) w
    = (Ret (Inr \<lparr>cuid = [], suid = [], cap = [], secret = []\<rparr>), log, w)"
proof -
  have "conv_m2ai [] = Ret (Some \<lparr>cuid = [], suid = [], cap = [], secret = []\<rparr>)" by code_simp
  then show ?thesis
    using assms by (simp add: proxy_auth_def fauth_proxy_def run_simps proxy_loop.simps)
qed

text \<open>The check for a bad reply to \<open>authinfo\<close> is dead: \<open>proxyAuth\<close> never reports
  ``bad auth info''. A factotum that answers \<open>done\<close> and then an \<open>ok\<close> with no payload
  authenticates a client whose name and secret are empty.\<close>

lemma proxy_auth_accepts_empty_info:
  "fst (proxy_auth keyspec fac w) \<noteq> Ret (Inl BadAuthInfo)
   \<and> fst (proxy_auth ''dom=x'' (Inr [Reply ''ok'', Reply ''done'', Reply ''ok'']) w)
      = Ret (Inr \<lparr>cuid = '''', suid = '''', cap = '''', secret = ''''\<rparr>)"
proof
  show "fst (proxy_auth keyspec fac w) \<noteq> Ret (Inl BadAuthInfo)"
    using proxy_loop_not_bad
    by (auto simp: proxy_auth_def fauth_proxy_def split: sum.split prod.split)
       (metis fst_conv)+
  have rpcs: "rpc ''start'' ''dom=x'' \<lparr>replies = [Reply ''ok'', Reply ''done'', Reply ''ok''],
        sent = [], arg = []\<rparr> = ((ArOK, []), \<lparr>replies = [Reply ''done'', Reply ''ok''],
        sent = [''start dom=x''], arg = []\<rparr>)"
    "rpc ''read'' [] \<lparr>replies = [Reply ''done'', Reply ''ok''], sent = [''start dom=x''], arg = []\<rparr>
      = ((ArDone, []), \<lparr>replies = [Reply ''ok''], sent = [''start dom=x'', ''read ''], arg = []\<rparr>)"
    "fst (get_info \<lparr>replies = [Reply ''ok''], sent = [''start dom=x'', ''read ''], arg = []\<rparr>)
      = Ret (Inr \<lparr>cuid = '''', suid = '''', cap = '''', secret = ''''\<rparr>)"
    by code_simp+
  show "fst (proxy_auth ''dom=x'' (Inr [Reply ''ok'', Reply ''done'', Reply ''ok'']) w)
      = Ret (Inr \<lparr>cuid = '''', suid = '''', cap = '''', secret = ''''\<rparr>)"
    using rpcs(3) by (simp add: proxy_auth_def fauth_proxy_def rpcs(1,2) proxy_loop.simps split_beta)
qed

text \<open>Factotum may ask for at most 4096 bytes, yet a request carries at most 4090 of
  them beside its verb: a demand of 4091 to 4096 bytes passes the check, the bytes are taken
  off the wire, and the phase then fails with ``rpc too big''.\<close>

lemma phase_demand_too_big:
  assumes "replies r = Reply (''toosmall '' @ itoa_nat need) # rs"
    and "4090 < need" and "need \<le> 4096" and "need \<le> length (pending w)"
  shows "\<exists>r' w'. phase_loop [] r w = (Ret (Inl (PhaseWrite ''rpc too big'')), r', w')
    \<and> pending w' = drop need (pending w)"
proof -
  have "need \<in> {4091, 4092, 4093, 4094, 4095, 4096}" using assms(2,3) by auto
  then have len: "length (itoa_nat need) = 4"
    by (auto simp: itoa_nat.simps)
  define r1 where "r1 = r\<lparr>replies := rs, sent := sent r @ [''write ''], arg := itoa_nat need\<rparr>"
  have "index_byte (CHR '' '') (''toosmall '' @ itoa_nat need) = Some 8"
    using index_byte_append [of "CHR '' ''" "''toosmall''" "itoa_nat need"] by simp
  then have split: "split_reply (''toosmall '' @ itoa_nat need) = (''toosmall'', itoa_nat need)"
    by (simp add: split_reply_def)
  have r1: "rpc ''write'' [] r = ((ArTooSmall, itoa_nat need), r1)"
    using assms(1) len split
    by (simp add: rpc_def auth_rpc_max_def rpc_reply_def r1_def ar_tab_def)
  have "atoi (trim_space (arg r1)) = Some (int need)"
    using assms(3) by (simp add: r1_def atoi_trim_itoa)
  from phase_loop_more [OF r1 this] assms(2,3)
  have step: "phase_loop [] r w = (case read_full need w of
       ((bs, Some e), w1) \<Rightarrow> (Ret (Inl (PhaseRead e)), r1, w1)
     | ((bs, None), w1) \<Rightarrow> phase_loop bs r1 w1)"
    by (simp add: auth_rpc_max_def)
  obtain w1 where rd: "read_full need w = ((take need (pending w), None), w1)"
      and w1: "pending w1 = drop need (pending w)"
    using read_full_spec [of need w] assms(4) by (auto simp: full_result_def prod_eq_iff)
  have "rpc ''write'' (take need (pending w)) r1 = ((ArRpcFailure, ''rpc too big''), r1)"
    using assms(2,4) by (simp add: rpc_def auth_rpc_max_def)
  from phase_loop_final [OF this, of w1] show ?thesis
    unfolding step rd by (simp add: w1)
qed

lemma phase_demand_too_big_example:
  "\<exists>r' w'. phase_loop [] \<lparr>replies = [Reply ''toosmall 4091''], sent = [], arg = []\<rparr>
      (demo_conn [replicate 5000 (CHR ''x'')]) = (Ret (Inl (PhaseWrite ''rpc too big'')), r', w')
    \<and> pending w' = drop 4091 (pending (demo_conn [replicate 5000 (CHR ''x'')]))"
proof (rule phase_demand_too_big)
  have "itoa_nat 4091 = ''4091''" by (simp add: itoa_nat.simps digit_chars)
  then show "replies \<lparr>replies = [Reply ''toosmall 4091''], sent = [], arg = []\<rparr> =
      Reply (''toosmall '' @ itoa_nat 4091) # []" by simp
  have "length (pending (demo_conn [replicate 5000 (CHR ''x'')])) = length (replicate 5000 (CHR ''x''))"
    by (simp only: demo_conn_def pending_def conn.simps concat.simps append_Nil2)
  then show "4091 \<le> length (pending (demo_conn [replicate 5000 (CHR ''x'')]))"
    by (simp only: length_replicate)
qed simp_all

end
