(* ===== verification/Bufio.thy ===== *)
theory Bufio
  imports Net_Conn
begin

text \<open>
  \<open>bufio.Reader\<close> with its buffer of 4096 bytes over a connection, as far as \<open>readClientEnv\<close>
  uses it: \<open>ReadString\<close> and \<open>Read\<close> under \<open>io.ReadFull\<close>. A reader is the buffered bytes not yet
  read and the connection below. What is in the buffer has been taken off the connection: it is
  lost to anyone who goes on reading the connection itself.
\<close>

type_synonym 'b bufr = "'b list \<times> 'b conn"

definition buf_size :: nat where
  "buf_size = 4096"

definition rest :: "'b bufr \<Rightarrow> 'b list" where
  "rest r = fst r @ pending (snd r)"

lemma rest_pair [simp]: "rest (b, c) = b @ pending c"
  by (simp add: rest_def)

section \<open>Read\<close>

text \<open>\<open>Read(p)\<close>: from the buffer when it holds something; else straight into a large \<open>p\<close>, or one
  fill of the buffer for a small one.\<close>

definition buf_read :: "nat \<Rightarrow> 'b bufr \<Rightarrow> ('b list \<times> goerr option) \<times> 'b bufr" where
  "buf_read n r =
     (case r of (b, c) \<Rightarrow>
        if n = 0 then (([], None), (b, c))
        else if b \<noteq> [] then ((take n b, None), (drop n b, c))
        else if n \<ge> buf_size then
          (case conn_read n c of (res, c') \<Rightarrow> (res, ([], c')))
        else
          (case conn_read buf_size c of
             ((bs, None), c') \<Rightarrow> ((take n bs, None), (drop n bs, c'))
           | ((bs, Some e), c') \<Rightarrow> (([], Some e), ([], c'))))"

lemma buf_read_rest:
  assumes "buf_read n r = ((bs, oe), r')"
  shows "rest r = bs @ rest r'" and "length bs \<le> n" and "oe \<noteq> None \<Longrightarrow> rest r' = []"
    and "oe = None \<Longrightarrow> 0 < n \<Longrightarrow> bs \<noteq> []"
    and "oe \<noteq> None \<Longrightarrow> bs = [] \<and> oe = Some (rerr (snd r))"
    and "rerr (snd r') = rerr (snd r)" and "outp (snd r') = outp (snd r)"
    and "oe \<noteq> None \<longleftrightarrow> 0 < n \<and> rest r = []" and "wleft (snd r') = wleft (snd r)"
proof -
  obtain b c where r: "r = (b, c)" by (metis prod.exhaust)
  obtain ds oe2 c2 where d: "conn_read n c = ((ds, oe2), c2)" by (metis prod.exhaust)
  obtain fs oe3 c3 where f: "conn_read buf_size c = ((fs, oe3), c3)" by (metis prod.exhaust)
  note pd = conn_read_pending [OF d] and pf = conn_read_pending [OF f]
  have fd: "rerr c2 = rerr c" "outp c2 = outp c" "wleft c2 = wleft c"
    "rerr c3 = rerr c" "outp c3 = outp c" "wleft c3 = wleft c"
    using conn_read_frame [of n c] conn_read_frame [of buf_size c] d f by auto
  have bsz: "0 < buf_size" by (simp add: buf_size_def)
  consider "n = 0" | "0 < n" "b \<noteq> []" | "0 < n" "b = []" "buf_size \<le> n"
    | "0 < n" "b = []" "n < buf_size" "oe3 = None" | "0 < n" "b = []" "n < buf_size" "oe3 \<noteq> None"
    by linarith
  then have "(rest r = bs @ rest r' \<and> length bs \<le> n \<and> (oe \<noteq> None \<longrightarrow> rest r' = [])
      \<and> (oe = None \<longrightarrow> 0 < n \<longrightarrow> bs \<noteq> [])
      \<and> (oe \<noteq> None \<longrightarrow> bs = [] \<and> oe = Some (rerr (snd r)))
      \<and> rerr (snd r') = rerr (snd r) \<and> outp (snd r') = outp (snd r)
      \<and> (oe \<noteq> None \<longleftrightarrow> 0 < n \<and> rest r = [])) \<and> wleft (snd r') = wleft (snd r)"
  proof cases
    case 1
    with assms r show ?thesis by (auto simp: buf_read_def)
  next
    case 2
    with assms r show ?thesis by (auto simp: buf_read_def)
  next
    case 3
    then have "buf_read n r = ((ds, oe2), ([], c2))" by (simp add: buf_read_def r d)
    with assms have "bs = ds" "oe = oe2" "r' = ([], c2)" by auto
    with 3 r pd fd show ?thesis by (cases oe2) simp_all
  next
    case 4
    then have "buf_read n r = ((take n fs, None), (drop n fs, c3))" by (simp add: buf_read_def r f)
    with assms have "bs = take n fs" "oe = None" "r' = (drop n fs, c3)" by auto
    moreover have "pending c \<noteq> []" using 4(4) pf(1) pf(3) bsz by auto
    ultimately show ?thesis using 4 r pf(1,3) fd bsz by simp
  next
    case 5
    then obtain x where "oe3 = Some x" by blast
    with 5 have "buf_read n r = (([], oe3), ([], c3))" by (simp add: buf_read_def r f)
    with assms have "bs = []" "oe = oe3" "r' = ([], c3)" by auto
    with 5 r pf fd show ?thesis by (cases oe3) simp_all
  qed
  then show "rest r = bs @ rest r'" and "length bs \<le> n" and "oe \<noteq> None \<Longrightarrow> rest r' = []"
    and "oe = None \<Longrightarrow> 0 < n \<Longrightarrow> bs \<noteq> []"
    and "oe \<noteq> None \<Longrightarrow> bs = [] \<and> oe = Some (rerr (snd r))"
    and "rerr (snd r') = rerr (snd r)" and "outp (snd r') = outp (snd r)"
    and "oe \<noteq> None \<longleftrightarrow> 0 < n \<and> rest r = []" and "wleft (snd r') = wleft (snd r)"
    by iprover+
qed

interpretation buffered: byte_source buf_read rest
proof unfold_locales
  fix n :: nat and r r' :: "'a bufr" and bs oe
  show "buf_read n r = ((bs, oe), r') \<Longrightarrow> rest r = bs @ rest r'"
    and "buf_read n r = ((bs, oe), r') \<Longrightarrow> length bs \<le> n"
    by (rule buf_read_rest; assumption)+
next
  fix n :: nat and r r' :: "'a bufr" and bs e
  assume "buf_read n r = ((bs, Some e), r')"
  from buf_read_rest(3) [OF this] show "rest r' = []" by simp
qed

text \<open>\<open>io.ReadFull(reader, buf)\<close>.\<close>

function buf_read_loop ::
    "nat \<Rightarrow> 'b list \<Rightarrow> 'b bufr \<Rightarrow> ('b list \<times> goerr option) \<times> 'b bufr" where
  "buf_read_loop need got r =
     (if need = 0 then ((got, None), r)
      else (case buf_read need r of
              ((bs, None), r') \<Rightarrow> buf_read_loop (need - length bs) (got @ bs) r'
            | ((bs, Some e), r') \<Rightarrow>
                ((got @ bs, Some (if e = EOF \<and> got @ bs \<noteq> [] then UnexpectedEOF else e)), r')))"
  by pat_completeness auto
termination
  by (relation "measure (\<lambda>(need, got, r). need)") (auto dest!: sym [THEN buf_read_rest(4)])

declare buf_read_loop.simps [simp del]

definition buf_read_full :: "nat \<Rightarrow> 'b bufr \<Rightarrow> ('b list \<times> goerr option) \<times> 'b bufr" where
  "buf_read_full n r = buf_read_loop n [] r"

lemma buf_read_loop_spec:
  "fst (buf_read_loop n got r) = full_result n got (rest r) (rerr (snd r))
   \<and> rest (snd (buf_read_loop n got r)) = drop n (rest r)
   \<and> outp (snd (snd (buf_read_loop n got r))) = outp (snd r)"
proof (induction n got r rule: buf_read_loop.induct)
  case (1 n got r)
  obtain bs e r' where b: "buf_read n r = ((bs, e), r')" by (metis prod.exhaust)
  note p = buf_read_rest [OF b]
  show ?case
  proof (cases "n = 0 \<or> e \<noteq> None")
    case True
    then show ?thesis
      using b p by (cases "n = 0")
        (auto simp: buf_read_loop.simps [of 0] buf_read_loop.simps [of n] full_result_def)
  next
    case False
    then have n: "n \<noteq> 0" and e: "e = None" by auto
    have "buf_read_loop n got r = buf_read_loop (n - length bs) (got @ bs) r'"
      using n b e by (simp add: buf_read_loop.simps [of n got r])
    moreover have "n \<le> length (rest r) \<longleftrightarrow> n - length bs \<le> length (rest r')"
      using p(1,2) by auto
    ultimately show ?thesis
      using "1.IH" [OF n b [symmetric] refl e] p(1,2,6,7) by (auto simp: full_result_def)
  qed
qed

lemma buf_read_full_spec:
  "fst (buf_read_full n r) = full_result n [] (rest r) (rerr (snd r))"
  "rest (snd (buf_read_full n r)) = drop n (rest r)"
  "outp (snd (snd (buf_read_full n r))) = outp (snd r)"
  by (simp_all add: buf_read_full_def buf_read_loop_spec)

section \<open>ReadString\<close>

text \<open>Fill the buffer until it holds the delimiter; a full buffer without it goes to the line and
  the search goes on. The line includes the delimiter.\<close>

function read_string :: "'b \<Rightarrow> 'b list \<Rightarrow> 'b list \<Rightarrow> 'b conn \<Rightarrow> (goerr + 'b list) \<times> 'b bufr" where
  "read_string d acc b c =
     (if d \<in> set b then
        (Inr (acc @ takeWhile (\<lambda>x. x \<noteq> d) b @ [d]), (tl (dropWhile (\<lambda>x. x \<noteq> d) b), c))
      else if length b \<ge> buf_size then read_string d (acc @ b) [] c
      else (case conn_read (buf_size - length b) c of
              ((bs, None), c') \<Rightarrow> read_string d acc (b @ bs) c'
            | ((bs, Some e), c') \<Rightarrow> (Inl e, ([], c'))))"
  by pat_completeness auto
termination
proof (relation "measures [\<lambda>(d, acc, b, c). length (pending c), \<lambda>(d, acc, b, c). length b]", simp, goal_cases)
  case (1 d acc b c)
  then show ?case by (cases b) (auto simp: buf_size_def)
next
  case (2 d acc b c)
  then show ?case by (auto dest!: sym [THEN conn_read_shrinks])
qed

declare read_string.simps [simp del]

lemma first_split:
  assumes "xs @ d # ys = us @ d # vs" and "d \<notin> set xs" and "d \<notin> set us"
  shows "xs = us \<and> ys = vs"
proof -
  have "takeWhile (\<lambda>x. x \<noteq> d) (xs @ d # ys) = xs" "takeWhile (\<lambda>x. x \<noteq> d) (us @ d # vs) = us"
    using assms(2,3) by (auto simp: takeWhile_append)
  then show ?thesis using assms(1) by auto
qed

lemma read_string_found:
  assumes "d \<notin> set acc" and "b @ pending c = line @ d # later" and "d \<notin> set line"
  shows "\<exists>b' c'. read_string d acc b c = (Inr (acc @ line @ [d]), (b', c')) \<and> b' @ pending c' = later
    \<and> rerr c' = rerr c \<and> outp c' = outp c"
  using assms
proof (induction d acc b c arbitrary: line rule: read_string.induct)
  case (1 d acc b c)
  consider "d \<in> set b" | "d \<notin> set b" "length b \<ge> buf_size" | "d \<notin> set b" "length b < buf_size"
    by linarith
  then show ?case
  proof cases
    case 1
    then obtain ys zs where b: "b = ys @ d # zs" "d \<notin> set ys" by (metis split_list_first)
    then have "ys @ d # (zs @ pending c) = line @ d # later" using "1.prems"(2) by simp
    then have "ys = line" "zs @ pending c = later"
      using first_split [OF _ b(2) "1.prems"(3)] by blast+
    moreover have "takeWhile (\<lambda>x. x \<noteq> d) b = ys" "dropWhile (\<lambda>x. x \<noteq> d) b = d # zs"
      using b by (auto simp: takeWhile_append dropWhile_append)
    ultimately show ?thesis using 1 by (simp add: read_string.simps [of d acc b])
  next
    case 2
    obtain us where "b = line @ us \<and> us @ pending c = d # later
        \<or> line = b @ us \<and> pending c = us @ d # later"
      using "1.prems"(2) by (auto simp: append_eq_append_conv2)
    then obtain l2 where l2: "line = b @ l2" "pending c = l2 @ d # later"
      using 2(1) by (cases us) auto
    have "d \<notin> set (acc @ b)" using "1.prems"(1) 2 by simp
    then show ?thesis
      using "1.IH"(1) [OF 2, of l2] l2 "1.prems"(3) 2
      by (simp add: read_string.simps [of d acc b])
  next
    case 3
    obtain bs e c' where r: "conn_read (buf_size - length b) c = ((bs, e), c')" by (metis prod.exhaust)
    have "pending c \<noteq> []" using "1.prems"(2) 3(1) by auto
    then have e: "e = None" using conn_read_pending(5) [OF r] by auto
    have "(b @ bs) @ pending c' = line @ d # later"
      using conn_read_pending(1) [OF r] "1.prems"(2) by simp
    moreover have "rerr c' = rerr c" "outp c' = outp c"
      using conn_read_frame [of "buf_size - length b" c] r by auto
    moreover have "\<not> buf_size \<le> length b" using 3(2) by simp
    ultimately show ?thesis
      using "1.IH"(2) [OF 3(1) _ r [symmetric] refl e "1.prems"(1) _ "1.prems"(3)] r e 3
      by (simp add: read_string.simps [of d acc b])
  qed
qed

lemma read_string_error:
  assumes "d \<notin> set (b @ pending c)"
  shows "\<exists>r'. read_string d acc b c = (Inl (rerr c), r')"
  using assms
proof (induction d acc b c rule: read_string.induct)
  case (1 d acc b c)
  obtain bs e c' where r: "conn_read (buf_size - length b) c = ((bs, e), c')" by (metis prod.exhaust)
  have f: "rerr c' = rerr c" using conn_read_frame [of "buf_size - length b" c] r by auto
  have p: "pending c = bs @ pending c'" by (rule conn_read_pending [OF r])
  show ?case
  proof (cases "length b \<ge> buf_size")
    case True
    with "1.IH"(1) "1.prems" show ?thesis by (simp add: read_string.simps [of d acc b])
  next
    case False
    with "1.IH"(2) [OF _ False r [symmetric] refl] "1.prems" r p f conn_read_pending(4) [OF r]
    show ?thesis by (cases e) (auto simp: read_string.simps [of d acc b])
  qed
qed

end
