(* ===== verification/Go_Path.thy ===== *)
theory Go_Path
  imports Go_Strings
begin

text \<open>
  \<open>path/filepath\<close>: \<open>Clean\<close> and \<open>Join\<close> as far as the program uses them, on components. An
  environment is a function from names to values; an unset variable reads as the empty string.
\<close>

type_synonym env = "string \<Rightarrow> string"

fun split_slash :: "string \<Rightarrow> string list" where
  "split_slash [] = [[]]"
| "split_slash (c # cs) =
     (case split_slash cs of
        [] \<Rightarrow> [[c]]
      | w # ws \<Rightarrow> (if c = CHR ''/'' then [] # w # ws else (c # w) # ws))"

fun join_slash :: "string list \<Rightarrow> string" where
  "join_slash [] = []"
| "join_slash [w] = w"
| "join_slash (w # ws) = w @ ''/'' @ join_slash ws"

text \<open>One component after the other; the stack is reversed. A \<open>..\<close> removes a name, stays when
  there is none, and disappears at the root.\<close>

fun clean_comps :: "bool \<Rightarrow> string list \<Rightarrow> string list \<Rightarrow> string list" where
  "clean_comps rooted st [] = rev st"
| "clean_comps rooted st (w # ws) =
     (if w = [] \<or> w = ''.'' then clean_comps rooted st ws
      else if w = ''..'' then
        (case st of
           [] \<Rightarrow> clean_comps rooted (if rooted then [] else [''..'']) ws
         | s # st' \<Rightarrow> clean_comps rooted (if s = ''..'' then ''..'' # st else st') ws)
      else clean_comps rooted (w # st) ws)"

definition clean :: "string \<Rightarrow> string" where
  "clean p =
     (let rooted = has_prefix ''/'' p; body = join_slash (clean_comps rooted [] (split_slash p)) in
      if rooted then ''/'' @ body else if body = [] then ''.'' else body)"

definition path_join :: "string list \<Rightarrow> string" where
  "path_join ws =
     (let ws' = filter (\<lambda>w. w \<noteq> []) ws in
      if ws' = [] then [] else clean (join_slash ws'))"

text \<open>\<open>Base\<close>: trailing slashes go, then everything up to the last one.\<close>

definition path_base :: "string \<Rightarrow> string" where
  "path_base p =
     (if p = [] then ''.''
      else
        let q = rev (dropWhile (\<lambda>c. c = CHR ''/'') (rev p)) in
        if q = [] then ''/'' else rev (takeWhile (\<lambda>c. c \<noteq> CHR ''/'') (rev q)))"

lemma split_slash_plain: "CHR ''/'' \<notin> set w \<Longrightarrow> split_slash w = [w]"
  by (induction w) auto

lemma split_slash_not_Nil [simp]: "split_slash w \<noteq> []"
  by (induction w) (auto split: list.split)

lemma split_slash_root: "split_slash (CHR ''/'' # p) = [] # split_slash p"
  by (cases "split_slash p") auto

lemma split_slash_append: "CHR ''/'' \<notin> set w \<Longrightarrow> split_slash (w @ CHR ''/'' # p) = w # split_slash p"
  by (induction w) (auto split: list.split)

lemma split_join_slash:
  "ws \<noteq> [] \<Longrightarrow> \<forall>w \<in> set ws. CHR ''/'' \<notin> set w \<Longrightarrow> split_slash (join_slash ws) = ws"
  by (induction ws rule: join_slash.induct) (auto simp: split_slash_plain split_slash_append)

text \<open>A plain name joined below a clean absolute directory.\<close>

definition plain_name :: "string \<Rightarrow> bool" where
  "plain_name w \<longleftrightarrow> w \<noteq> [] \<and> w \<noteq> ''.'' \<and> w \<noteq> ''..'' \<and> CHR ''/'' \<notin> set w"

definition abs_path :: "string list \<Rightarrow> string" where
  "abs_path ws = ''/'' @ join_slash ws"

lemma clean_comps_plain: "list_all plain_name ws \<Longrightarrow> clean_comps r st ws = rev st @ ws"
  by (induction ws arbitrary: st) (auto simp: plain_name_def)

lemma join_slash_snoc: "ws \<noteq> [] \<Longrightarrow> join_slash (ws @ [w]) = join_slash ws @ ''/'' @ w"
  by (induction ws rule: join_slash.induct) auto

lemma path_join_abs:
  assumes "list_all plain_name ws" and "plain_name w" and "ws \<noteq> []"
  shows "path_join [abs_path ws, w] = abs_path (ws @ [w])"
proof -
  have s: "split_slash (join_slash (ws @ [w])) = ws @ [w]"
    using assms by (intro split_join_slash) (auto simp: plain_name_def list_all_iff)
  have j: "join_slash [abs_path ws, w] = CHR ''/'' # join_slash (ws @ [w])"
    by (simp add: abs_path_def join_slash_snoc assms(3))
  have "split_slash (CHR ''/'' # join_slash (ws @ [w])) = [] # ws @ [w]"
    using s by (simp add: split_slash_root del: split_slash.simps)
  then have "clean (CHR ''/'' # join_slash (ws @ [w])) = abs_path (ws @ [w])"
    using assms by (simp add: clean_def Let_def has_prefix_def clean_comps_plain abs_path_def)
  then show ?thesis
    using assms(2) by (simp add: path_join_def j [simplified] plain_name_def abs_path_def
        join_slash_snoc assms(3))
qed

text \<open>\<open>Dir\<close>: everything up to the last slash, cleaned.\<close>

definition path_dir :: "string \<Rightarrow> string" where
  "path_dir p = clean (rev (dropWhile (\<lambda>c. c \<noteq> CHR ''/'') (rev p)))"

lemma path_dir_abs:
  assumes "list_all plain_name ws" and "plain_name w" and "ws \<noteq> []"
  shows "path_dir (abs_path (ws @ [w])) = abs_path ws"
proof -
  have "CHR ''/'' \<notin> set (rev w)" using assms(2) by (simp add: plain_name_def)
  then have "dropWhile (\<lambda>c. c \<noteq> CHR ''/'') (rev w @ CHR ''/'' # rev (join_slash ws) @ ''/'')
      = CHR ''/'' # rev (join_slash ws) @ ''/''"
    by (subst dropWhile_append2) auto
  then have p: "path_dir (abs_path (ws @ [w])) = clean (CHR ''/'' # join_slash ws @ ''/'')"
    by (simp add: path_dir_def abs_path_def join_slash_snoc assms(3))
  have "split_slash (join_slash (ws @ [[]])) = ws @ [[]]"
    using assms by (intro split_join_slash) (auto simp: plain_name_def list_all_iff)
  then have "split_slash (CHR ''/'' # join_slash ws @ ''/'') = [] # ws @ [[]]"
    by (simp add: split_slash_root join_slash_snoc assms(3) del: split_slash.simps)
  moreover have "clean_comps True [] ([] # ws @ [[]]) = ws"
  proof -
    have "clean_comps True st (us @ [[]]) = rev st @ us" if "list_all plain_name us" for us st
      using that by (induction us arbitrary: st) (auto simp: plain_name_def)
    then show ?thesis using assms(1) by simp
  qed
  ultimately show ?thesis
    unfolding p clean_def by (simp add: Let_def has_prefix_def abs_path_def del: split_slash.simps)
qed

end
