(* ===== verification/Client_Env.thy ===== *)
theory Client_Env
  imports Bufio Go_Path
begin

text \<open>
  The parts of \<open>cmd/rcpud/main.go\<close> that read from the client around the authentication: the
  p9any offer and choice (\<open>negotiateProtocol\<close>), the script that carries the client's environment
  (\<open>readClientEnv\<close>, \<open>parseScript\<close>), the shell it names (\<open>resolveShell\<close>) and the \<open>-mount\<close> flag
  (\<open>mountsFlag.Set\<close>). A Go \<open>map[string]string\<close> is a partial function.

  The files of the host are outside: \<open>stat\<close> is an argument.
\<close>

section \<open>The p9any exchange\<close>

definition nul :: char where
  "nul = CHR 0x00"

definition offer :: "string \<Rightarrow> string" where
  "offer domain = ''v.2 dp9ik@'' @ domain @ [nul]"

text \<open>One byte at a time up to the NUL; the second argument is the choice read so far.\<close>

function read_choice :: "string \<Rightarrow> char conn \<Rightarrow> (goerr + string) \<times> char conn" where
  "read_choice acc c =
     (case conn_read 1 c of
        ((bs, Some e), c') \<Rightarrow> (Inl (Err (''read choice: '' @ err_text e)), c')
      | ((bs, None), c') \<Rightarrow>
          if hd bs = nul then (Inr acc, c') else read_choice (acc @ [hd bs]) c')"
  by pat_completeness auto
termination
  by (relation "measure (\<lambda>(acc, c). length (pending c))")
    (auto dest!: sym [THEN conn_read_shrinks])

declare read_choice.simps [simp del]

definition negotiate_protocol :: "string \<Rightarrow> char conn \<Rightarrow> (goerr + string) \<times> char conn" where
  "negotiate_protocol domain c =
     (let c1 = snd (conn_write (offer domain) c) in
      case read_choice [] c1 of
        (Inl e, c2) \<Rightarrow> (Inl e, c2)
      | (Inr choice, c2) \<Rightarrow> (Inr choice, snd (conn_write (''OK'' @ [nul]) c2)))"

section \<open>The script\<close>

type_synonym client_env = "string \<rightharpoonup> string"

definition parse_line :: "string \<Rightarrow> client_env \<Rightarrow> client_env" where
  "parse_line line env =
     (if CHR ''='' \<in> set line then
        let parts = splitn2 (CHR ''='') line in
        env(trim_space (parts ! 0) \<mapsto> trim_cutset [CHR 0x27, CHR 0x22] (trim_space (parts ! 1)))
      else env)"

definition parse_script :: "string \<Rightarrow> client_env" where
  "parse_script script = fold parse_line (split_byte (CHR ''\<newline>'') script) Map.empty"

text \<open>The working directory is dropped when it does not exist. A failed scan of the length leaves
  it 0. The result has the environment and the reader, whose buffer dies with the call.\<close>

definition check_dir :: "(string \<Rightarrow> bool) \<Rightarrow> client_env \<Rightarrow> client_env" where
  "check_dir stat env =
     (case env ''dir'' of
        Some d \<Rightarrow> if d \<noteq> [] \<and> \<not> stat d then env(''dir'' := None) else env
      | None \<Rightarrow> env)"

definition read_client_env ::
    "(string \<Rightarrow> bool) \<Rightarrow> char conn \<Rightarrow> (goerr + client_env) go \<times> char bufr" where
  "read_client_env stat c =
     (case read_string (CHR ''\<newline>'') [] [] c of
        (Inl e, r) \<Rightarrow> (Ret (Inl (Err (''read script length: '' @ err_text e))), r)
      | (Inr len_str, r) \<Rightarrow>
          let script_len = (case sscanf_d len_str of Some n \<Rightarrow> n | None \<Rightarrow> 0) in
          if script_len > 0 then
            if script_len > max_alloc then (Panic, r)
            else (case buf_read_full (nat script_len) r of
                    ((script, Some e), r') \<Rightarrow> (Ret (Inl (Err (''read script: '' @ err_text e))), r')
                  | ((script, None), r') \<Rightarrow> (Ret (Inr (check_dir stat (parse_script script))), r'))
          else (Ret (Inr (check_dir stat Map.empty)), r))"

definition resolve_shell :: "client_env \<Rightarrow> string" where
  "resolve_shell env =
     (case env ''cmd'' of
        Some c \<Rightarrow> if c \<noteq> [] \<and> c \<noteq> ''()'' then c else ''/usr/local/bin/rc''
      | None \<Rightarrow> ''/usr/local/bin/rc'')"

section \<open>The mount flag\<close>

record mount_spec =
  ms_name :: string
  ms_path :: string

datatype mount_error =
    BadPath string string     \<comment> \<open>the path and the error of \<open>Abs\<close>\<close>
  | NoPath string string      \<comment> \<open>the absolute path and the error of \<open>Stat\<close>\<close>
  | NotDir string

text \<open>\<open>strings.Index(v, "=") > 0\<close>: an empty name counts as no name. \<open>abs_of\<close> is \<open>filepath.Abs\<close>,
  \<open>stat\<close> whether the path exists and is a directory.\<close>

definition mounts_set ::
    "(string \<Rightarrow> string + string) \<Rightarrow> (string \<Rightarrow> string + bool) \<Rightarrow> string \<Rightarrow> mount_spec list
     \<Rightarrow> mount_error option \<times> mount_spec list" where
  "mounts_set abs_of stat v m =
     (let s = (case index_byte (CHR ''='') v of
                 Some (Suc i) \<Rightarrow> \<lparr>ms_name = take (Suc i) v, ms_path = drop (Suc (Suc i)) v\<rparr>
               | _ \<Rightarrow> \<lparr>ms_name = path_base v, ms_path = v\<rparr>) in
      case abs_of (ms_path s) of
        Inl e \<Rightarrow> (Some (BadPath (ms_path s) e), m)
      | Inr p \<Rightarrow>
          (case stat p of
             Inl e \<Rightarrow> (Some (NoPath p e), m)
           | Inr is_dir \<Rightarrow>
               if \<not> is_dir then (Some (NotDir p), m) else (None, m @ [s\<lparr>ms_path := p\<rparr>])))"

section \<open>Negotiation\<close>

lemma read_choice_spec:
  assumes "pending c = choice @ nul # later" and "nul \<notin> set choice"
  shows "\<exists>c'. read_choice acc c = (Inr (acc @ choice), c') \<and> pending c' = later
    \<and> rerr c' = rerr c \<and> outp c' = outp c \<and> wleft c' = wleft c"
  using assms
proof (induction choice arbitrary: acc c)
  case (Nil acc c)
  obtain bs e c' where r: "conn_read 1 c = ((bs, e), c')" by (metis prod.exhaust)
  note p = conn_read_pending [OF r]
  have e: "e = None" using p(5) Nil by auto
  then have "bs = [nul]" "pending c' = later"
    using p(1,2,3) Nil by (cases bs; auto)+
  with r e show ?case
    using conn_read_frame [of 1 c] by (simp add: read_choice.simps [of acc c])
next
  case (Cons x choice acc c)
  obtain bs e c' where r: "conn_read 1 c = ((bs, e), c')" by (metis prod.exhaust)
  note p = conn_read_pending [OF r]
  have e: "e = None" using p(5) Cons.prems by auto
  then have bs: "bs = [x]" and c': "pending c' = choice @ nul # later"
    using p(1,2,3) Cons.prems by (cases bs; auto)+
  have f: "rerr c' = rerr c" "outp c' = outp c" "wleft c' = wleft c"
    using conn_read_frame [of 1 c] r by auto
  have "read_choice acc c = read_choice (acc @ [x]) c'"
    using r e bs Cons.prems(2) by (auto simp: read_choice.simps [of acc c])
  then show ?case using Cons.IH [OF c', of "acc @ [x]"] Cons.prems(2) f by auto
qed

lemma read_choice_no_nul:
  assumes "nul \<notin> set (pending c)"
  shows "fst (read_choice acc c) = Inl (Err (''read choice: '' @ err_text (rerr c)))
    \<and> outp (snd (read_choice acc c)) = outp c"
  using assms
proof (induction acc c rule: read_choice.induct)
  case (1 acc c)
  obtain bs e c' where r: "conn_read 1 c = ((bs, e), c')" by (metis prod.exhaust)
  note p = conn_read_pending [OF r]
  have f: "rerr c' = rerr c" "outp c' = outp c"
    using conn_read_frame [of 1 c] r by auto
  show ?case
  proof (cases e)
    case None
    then have "hd bs \<noteq> nul" "nul \<notin> set (pending c')"
      using p(1,3) "1.prems" by (cases bs; auto)+
    with "1.IH" r None f show ?thesis by (auto simp: read_choice.simps [of acc c])
  next
    case (Some x)
    with r p(4) f show ?thesis by (auto simp: read_choice.simps [of acc c])
  qed
qed

text \<open>The negotiation reads exactly the client's choice and its NUL, however the network
  cuts them: what follows is left for the authentication. It offers first and confirms after,
  and takes any choice.\<close>

lemma negotiate_exact:
  assumes "pending c = choice @ nul # later" and "nul \<notin> set choice" and "wleft c = None"
  shows "\<exists>c'. negotiate_protocol domain c = (Inr choice, c') \<and> pending c' = later
    \<and> outp c' = outp c @ [offer domain, ''OK'' @ [nul]]"
proof -
  have "pending (snd (conn_write (offer domain) c)) = choice @ nul # later"
    using assms(1) by (simp add: frame_simps)
  from read_choice_spec [OF this assms(2), of "[]"] show ?thesis
    using assms(3) by (fastforce simp: negotiate_protocol_def Let_def conn_write_def pending_def)
qed

lemma negotiate_exact_example:
  "\<exists>c'. negotiate_protocol ''d'' \<lparr>inp = [''dp9'', ''ik@d'' @ [nul] @ ''abc''], rerr = EOF, outp = [],
      wleft = None\<rparr> = (Inr ''dp9ik@d'', c') \<and> pending c' = ''abc''"
  using negotiate_exact [of "\<lparr>inp = [''dp9'', ''ik@d'' @ [nul] @ ''abc''], rerr = EOF, outp = [],
      wleft = None\<rparr>" "''dp9ik@d''" "''abc''" "''d''"]
  by (auto simp: pending_def nul_def)

text \<open>A client that closes before its NUL is refused, without a confirmation.\<close>

lemma negotiate_refuses:
  assumes "nul \<notin> set (pending c)" and "wleft c = None"
  shows "fst (negotiate_protocol domain c) = Inl (Err (''read choice: '' @ err_text (rerr c)))
    \<and> outp (snd (negotiate_protocol domain c)) = outp c @ [offer domain]"
proof -
  let ?c1 = "snd (conn_write (offer domain) c)"
  have "nul \<notin> set (pending ?c1)" "rerr ?c1 = rerr c" "outp ?c1 = outp c @ [offer domain]"
    using assms by (simp_all add: frame_simps) (simp add: conn_write_def)
  with read_choice_no_nul [of ?c1 "[]"] show ?thesis
    by (auto simp: negotiate_protocol_def Let_def split: prod.split sum.split)
qed

lemma negotiate_refuses_example:
  "fst (negotiate_protocol ''d'' \<lparr>inp = [''dp9ik''], rerr = EOF, outp = [], wleft = None\<rparr>)
    = Inl (Err ''read choice: EOF'')"
  using negotiate_refuses [of "\<lparr>inp = [''dp9ik''], rerr = EOF, outp = [], wleft = None\<rparr>" "''d''"]
  by (simp add: pending_def nul_def)


section \<open>Scripts\<close>

text \<open>A variable a line can carry; what the parser makes of its name and value; and the variables it
  leaves alone: no space around the name, no space or quote around the value.\<close>

definition sendable :: "string \<times> string \<Rightarrow> bool" where
  "sendable kv \<longleftrightarrow>
     CHR ''='' \<notin> set (fst kv) \<and> CHR ''\<newline>'' \<notin> set (fst kv) \<and> CHR ''\<newline>'' \<notin> set (snd kv)"

definition clean_var :: "string \<times> string \<Rightarrow> string \<times> string" where
  "clean_var kv = (trim_space (fst kv), trim_cutset [CHR 0x27, CHR 0x22] (trim_space (snd kv)))"

definition var_ok :: "string \<times> string \<Rightarrow> bool" where
  "var_ok kv \<longleftrightarrow>
     untrimmed space_runes (fst kv) \<and> untrimmed space_runes (snd kv)
     \<and> untrimmed [[CHR 0x27], [CHR 0x22]] (snd kv)"

lemma clean_var_ok: "var_ok kv \<Longrightarrow> clean_var kv = kv"
  by (simp add: clean_var_def var_ok_def trim_space_id trim_cutset_id)

definition render_line :: "string \<times> string \<Rightarrow> string" where
  "render_line kv = fst kv @ ''='' @ snd kv @ ''\<newline>''"

definition render_script :: "(string \<times> string) list \<Rightarrow> string" where
  "render_script kvs = concat (map render_line kvs)"

lemma parse_line_render:
  "sendable (k, v) \<Longrightarrow> parse_line (k @ CHR ''='' # v) env
     = env(fst (clean_var (k, v)) \<mapsto> snd (clean_var (k, v)))"
  by (simp add: parse_line_def sendable_def clean_var_def splitn2_append)

lemma parse_lines_render:
  "\<forall>kv \<in> set kvs. sendable kv \<Longrightarrow>
   fold parse_line (split_byte (CHR ''\<newline>'') (render_script kvs)) env
     = env ++ map_of (rev (map clean_var kvs))"
proof (induction kvs arbitrary: env)
  case Nil
  show ?case by (simp add: render_script_def parse_line_def)
next
  case (Cons kv kvs)
  obtain k v where kv: "kv = (k, v)" by (metis prod.exhaust)
  obtain k' v' where cl: "clean_var (k, v) = (k', v')" by (metis prod.exhaust)
  have "CHR ''\<newline>'' \<notin> set (k @ CHR ''='' # v)"
    using Cons.prems by (auto simp: kv sendable_def)
  from split_byte_append [OF this, of "render_script kvs"]
  have "split_byte (CHR ''\<newline>'') (render_script (kv # kvs))
      = (k @ CHR ''='' # v) # split_byte (CHR ''\<newline>'') (render_script kvs)"
    by (simp add: render_script_def render_line_def kv)
  then show ?case
    using Cons by (simp add: parse_line_render kv cl map_add_def fun_eq_iff split: option.split)
qed

lemma parse_script_render:
  "\<forall>kv \<in> set kvs. sendable kv \<Longrightarrow> parse_script (render_script kvs) = map_of (rev (map clean_var kvs))"
  by (simp add: parse_script_def parse_lines_render)

text \<open>What the client sends: the length in decimal, a newline, the script.\<close>

definition send_script :: "string \<Rightarrow> string" where
  "send_script script = itoa_nat (length script) @ ''\<newline>'' @ script"

lemma newline_no_digit: "CHR ''\<newline>'' \<notin> set (itoa_nat n)"
proof
  assume "CHR ''\<newline>'' \<in> set (itoa_nat n)"
  then have "is_digit (CHR ''\<newline>'')" by (rule itoa_nat_digits)
  then show False by (simp add: is_digit_def digit_val_def)
qed

lemma read_len_line:
  assumes "pending c = itoa_nat n @ ''\<newline>'' @ later" and "int n < 2 ^ 63"
  shows "\<exists>b c'. read_string (CHR ''\<newline>'') [] [] c = (Inr (itoa_nat n @ ''\<newline>''), (b, c'))
    \<and> b @ pending c' = later \<and> rerr c' = rerr c
    \<and> sscanf_d (itoa_nat n @ ''\<newline>'') = Some (int n)"
proof -
  have "\<not> is_digit (CHR ''\<newline>'')" by (simp add: is_digit_def digit_val_def)
  with sscanf_d_itoa [OF assms(2), of "''\<newline>''"]
    read_string_found [of "CHR ''\<newline>''" "[]" "[]" c "itoa_nat n" later] assms(1) newline_no_digit
  show ?thesis by fastforce
qed

text \<open>The reader after the script: what it holds and the connection below together are what the
  client sent after it.\<close>

lemma read_client_env_script:
  assumes "pending c = send_script script @ later" and "int (length script) \<le> max_alloc"
  shows "\<exists>r. read_client_env stat c = (Ret (Inr (check_dir stat (if script = [] then Map.empty
      else parse_script script))), r) \<and> rest r = later"
proof -
  have n: "int (length script) < 2 ^ 63" using assms(2) by (simp add: max_alloc_def)
  obtain b c' where r: "read_string (CHR ''\<newline>'') [] [] c
      = (Inr (itoa_nat (length script) @ ''\<newline>''), (b, c'))" "b @ pending c' = script @ later"
    and s: "sscanf_d (itoa_nat (length script) @ ''\<newline>'') = Some (int (length script))"
    using read_len_line [OF _ n, of c "script @ later"] assms(1) by (auto simp: send_script_def)
  have f: "fst (buf_read_full (length script) (b, c')) = (script, None)"
    "rest (snd (buf_read_full (length script) (b, c'))) = later"
    using r(2) by (simp_all add: buf_read_full_spec full_result_def)
  show ?thesis
  proof (cases "script = []")
    case True
    then show ?thesis using r s by (simp add: read_client_env_def)
  next
    case False
    then show ?thesis
      using r s f assms(2)
      by (cases "buf_read_full (length script) (b, c')") (simp add: read_client_env_def)
  qed
qed


definition demo_vars :: "(string \<times> string) list" where
  "demo_vars = [(''cmd'', ''date''), (''dir'', ''/tmp'')]"

lemma no_space_ends:
  "untrimmed space_runes ''cmd''" "untrimmed space_runes ''date''"
  "untrimmed space_runes ''dir''" "untrimmed space_runes ''/tmp''"
  by (simp_all add: untrimmed_def space_runes_def has_prefix_def char_of_def)

lemma demo_vars_ok: "\<forall>kv \<in> set demo_vars. var_ok kv" "\<forall>kv \<in> set demo_vars. sendable kv"
  by (simp add: demo_vars_def var_ok_def no_space_ends)
    (simp_all add: untrimmed_def has_prefix_def demo_vars_def sendable_def)

lemma demo_script:
  "send_script (render_script demo_vars)
   = ''18'' @ ''\<newline>'' @ ''cmd=date'' @ ''\<newline>'' @ ''dir=/tmp'' @ ''\<newline>''"
  by (simp add: send_script_def render_script_def render_line_def demo_vars_def itoa_nat.simps
      digit_chars)



text \<open>Claim C39. What the client sends in the same segment after the script is lost: it goes into
  the buffer of the reader that \<open>readClientEnv\<close> makes and drops, and the 9P client, which reads
  the connection itself, never sees it.\<close>

theorem read_client_env_overread:
  assumes "inp c = [send_script script @ later]" and "script \<noteq> []"
    and "length (send_script script @ later) \<le> buf_size"
  shows "\<exists>r. read_client_env stat c = (Ret (Inr (check_dir stat (parse_script script))), r)
    \<and> fst r = later \<and> pending (snd r) = []"
proof -
  let ?n = "length script" and ?c' = "c\<lparr>inp := [[]]\<rparr>" and ?s = "send_script script @ later"
  have n: "int ?n < 2 ^ 63" "int ?n \<le> max_alloc"
    using assms(3) by (simp_all add: send_script_def max_alloc_def buf_size_def)
  have ne: "?s \<noteq> []" by (simp add: send_script_def)
  then have rd: "conn_read buf_size c = ((?s, None), ?c')"
    using assms(1,3) by (simp add: conn_read_def buf_size_def)
  have tk: "takeWhile (\<lambda>x. x \<noteq> CHR ''\<newline>'') ?s = itoa_nat ?n"
    "dropWhile (\<lambda>x. x \<noteq> CHR ''\<newline>'') ?s = CHR ''\<newline>'' # script @ later"
    using newline_no_digit [of ?n]
    by (auto simp: send_script_def takeWhile_append dropWhile_append)
  have mem: "CHR ''\<newline>'' \<in> set ?s" by (simp add: send_script_def)
  have line: "read_string (CHR ''\<newline>'') [] [] c
      = (Inr (itoa_nat ?n @ ''\<newline>''), (script @ later, ?c'))"
    using rd mem tk
    by (simp add: read_string.simps [of _ _ "[]"] read_string.simps [of _ _ ?s] buf_size_def)
  have "\<not> is_digit (CHR ''\<newline>'')" by (simp add: is_digit_def digit_val_def)
  then have sc: "sscanf_d (itoa_nat ?n @ ''\<newline>'') = Some (int ?n)"
    using sscanf_d_itoa [OF n(1), of "''\<newline>''"] by simp
  have "buf_read ?n (script @ later, ?c') = ((script, None), (later, ?c'))"
    using assms(2) by (simp add: buf_read_def)
  then have "buf_read_full ?n (script @ later, ?c') = ((script, None), (later, ?c'))"
    using assms(2) by (simp add: buf_read_full_def buf_read_loop.simps)
  with line sc n(2) assms(2) show ?thesis
    by (simp add: read_client_env_def pending_def)
qed

theorem read_client_env_overread_witness:
  "\<exists>r. read_client_env (\<lambda>_. True)
      \<lparr>inp = [send_script ''cmd=date'' @ ''Tversion''], rerr = EOF, outp = [], wleft = None\<rparr>
    = (Ret (Inr (check_dir (\<lambda>_. True) (parse_script ''cmd=date''))), r)
    \<and> fst r = ''Tversion'' \<and> pending (snd r) = []"
  by (rule read_client_env_overread)
    (simp_all add: send_script_def buf_size_def itoa_nat.simps digit_chars)

text \<open>A script length above the address space panics in \<open>make\<close>, in a goroutine that
  nothing recovers, so an authenticated client can stop the daemon with one line; a length that
  is zero, negative or not a number gives the empty environment.\<close>

lemma read_client_env_huge:
  assumes "pending c = itoa_nat n @ ''\<newline>'' @ later" and "int n < 2 ^ 63"
  shows "(int n > max_alloc \<longrightarrow> fst (read_client_env stat c) = Panic)
    \<and> (n = 0 \<longrightarrow> fst (read_client_env stat c) = Ret (Inr (check_dir stat Map.empty)))"
proof -
  obtain b c' where "read_string (CHR ''\<newline>'') [] [] c = (Inr (itoa_nat n @ ''\<newline>''), (b, c'))"
    and "sscanf_d (itoa_nat n @ ''\<newline>'') = Some (int n)"
    using read_len_line [OF assms] by blast
  then show ?thesis by (auto simp: read_client_env_def max_alloc_def)
qed

lemma read_client_env_huge_example:
  "fst (read_client_env (\<lambda>_. True) \<lparr>inp = [itoa_nat (2 ^ 50) @ ''\<newline>''], rerr = EOF, outp = [],
     wleft = None\<rparr>) = Panic"
  using read_client_env_huge [of "\<lparr>inp = [itoa_nat (2 ^ 50) @ ''\<newline>''], rerr = EOF, outp = [],
     wleft = None\<rparr>" "2 ^ 50" "[]" "\<lambda>_. True"] by (simp add: pending_def max_alloc_def)

text \<open>The \<open>-mount\<close> flag adds exactly one entry when the path resolves to a directory,
  with the name before a \<open>=\<close> that is not the first byte, and leaves the list as it was with an
  error otherwise.\<close>

lemma mounts_set_spec:
  "(fst (mounts_set abs_of stat v m) \<noteq> None \<longrightarrow> snd (mounts_set abs_of stat v m) = m)
   \<and> (fst (mounts_set abs_of stat v m) = None \<longrightarrow>
        (\<exists>s. snd (mounts_set abs_of stat v m) = m @ [s] \<and> stat (ms_path s) = Inr True
           \<and> (if \<exists>nm p. v = nm @ ''='' @ p \<and> nm \<noteq> [] \<and> CHR ''='' \<notin> set nm
              then \<exists>p. v = ms_name s @ ''='' @ p \<and> abs_of p = Inr (ms_path s)
              else ms_name s = path_base v \<and> abs_of v = Inr (ms_path s))))"
proof -
  define s where "s = (case index_byte (CHR ''='') v of
      Some (Suc i) \<Rightarrow> \<lparr>ms_name = take (Suc i) v, ms_path = drop (Suc (Suc i)) v\<rparr>
    | _ \<Rightarrow> \<lparr>ms_name = path_base v, ms_path = v\<rparr>)"
  have s: "(\<exists>nm p. v = nm @ ''='' @ p \<and> nm \<noteq> [] \<and> CHR ''='' \<notin> set nm) \<and> v = ms_name s @ ''='' @ ms_path s
      \<or> \<not> (\<exists>nm p. v = nm @ ''='' @ p \<and> nm \<noteq> [] \<and> CHR ''='' \<notin> set nm)
        \<and> ms_name s = path_base v \<and> ms_path s = v"
  proof (cases "\<exists>nm p. v = nm @ ''='' @ p \<and> nm \<noteq> [] \<and> CHR ''='' \<notin> set nm")
    case True
    then obtain nm p where v: "v = nm @ ''='' @ p" "nm \<noteq> []" "CHR ''='' \<notin> set nm" by blast
    then have "index_byte (CHR ''='') v = Some (length nm)"
      using index_byte_append [of "CHR ''=''" nm p] by simp
    with v True show ?thesis by (cases nm) (auto simp: s_def)
  next
    case False
    have "index_byte (CHR ''='') v = None \<or> index_byte (CHR ''='') v = Some 0"
    proof (cases "index_byte (CHR ''='') v")
      case (Some i)
      note i = index_byte_Some [OF Some]
      then have "v = take i v @ ''='' @ drop (Suc i) v" using id_take_nth_drop [of i v] by simp
      with False i have "take i v = []" by blast
      with i Some show ?thesis by auto
    qed simp
    then have "s = \<lparr>ms_name = path_base v, ms_path = v\<rparr>"
      unfolding s_def by (elim disjE) (simp_all only: option.case nat.case)
    with False show ?thesis by simp
  qed
  have def: "mounts_set abs_of stat v m = (case abs_of (ms_path s) of
      Inl e \<Rightarrow> (Some (BadPath (ms_path s) e), m)
    | Inr p \<Rightarrow> (case stat p of
         Inl e \<Rightarrow> (Some (NoPath p e), m)
       | Inr is_dir \<Rightarrow> if \<not> is_dir then (Some (NotDir p), m) else (None, m @ [s\<lparr>ms_path := p\<rparr>])))"
    by (simp only: mounts_set_def Let_def s_def)
  define N where "N \<longleftrightarrow> (\<exists>nm p. v = nm @ ''='' @ p \<and> nm \<noteq> [] \<and> CHR ''='' \<notin> set nm)"
  show ?thesis
    using s unfolding def N_def [symmetric] by (cases N) (auto split: sum.split)
qed

lemma mounts_set_spec_example:
  "snd (mounts_set (\<lambda>p. Inr (''/root/'' @ p)) (\<lambda>_. Inr True) ''src=code'' [])
     = [\<lparr>ms_name = ''src'', ms_path = ''/root/code''\<rparr>]
   \<and> fst (mounts_set (\<lambda>p. Inr (''/root/'' @ p)) (\<lambda>_. Inr False) ''src=code'' []) \<noteq> None"
proof -
  let ?abs = "\<lambda>p. Inr (''/root/'' @ p)"
  have 1: "fst (mounts_set ?abs (\<lambda>_. Inr True) ''src=code'' []) = None"
    by (simp add: mounts_set_def numeral_eq_Suc)
  from mounts_set_spec [of ?abs "\<lambda>_. Inr True" "''src=code''" "[]"] 1
  have "\<exists>s. snd (mounts_set ?abs (\<lambda>_. Inr True) ''src=code'' []) = [s]" by auto
  moreover have "snd (mounts_set ?abs (\<lambda>_. Inr True) ''src=code'' [])
      = [\<lparr>ms_name = ''src'', ms_path = ''/root/code''\<rparr>]"
    by (simp add: mounts_set_def)
  moreover have "fst (mounts_set ?abs (\<lambda>_. Inr False) ''src=code'' []) \<noteq> None"
    by (simp add: mounts_set_def)
  ultimately show ?thesis by simp
qed

end
