(* ===== verification/Go_Regexp.thy ===== *)
theory Go_Regexp
  imports Go_Strings
begin

text \<open>
  The part of Go's \<open>regexp\<close> that \<open>cmd/rcpud/main.go\<close> uses: the syntax of one pattern
  (\<open>MustCompile\<close>: classes, groups, alternatives and stars, read with a stack as the library's
  parser does), matching as the package documents it (\<open>leftmost\<close>, and among the matches that
  begin there the one a backtracking search finds first) and \<open>ReplaceAll\<close> with an empty
  replacement. Texts are byte strings: a class of ASCII bytes, or the complement of one, takes
  the same texts whether they are read by byte or by rune, and no rune of several bytes holds
  an ASCII byte.
\<close>

section \<open>Expressions and their language\<close>

datatype re =
    Chars bool "(char \<times> char) list"
  | Eps
  | Seq re re
  | Alt re re
  | Star re

definition in_range :: "char \<Rightarrow> char \<times> char \<Rightarrow> bool" where
  "in_range c r \<longleftrightarrow>
     (of_char (fst r) :: nat) \<le> of_char c \<and> (of_char c :: nat) \<le> of_char (snd r)"

text \<open>A class, negated when the flag says so.\<close>

definition in_class :: "bool \<Rightarrow> (char \<times> char) list \<Rightarrow> char \<Rightarrow> bool" where
  "in_class neg rs c \<longleftrightarrow> list_ex (in_range c) rs \<noteq> neg"

inductive_set kstar :: "string set \<Rightarrow> string set" for L where
  kstar_Nil [intro]: "[] \<in> kstar L"
| kstar_App: "p \<in> L \<Longrightarrow> q \<in> kstar L \<Longrightarrow> p @ q \<in> kstar L"

definition conc :: "string set \<Rightarrow> string set \<Rightarrow> string set" where
  "conc L M = {p @ q | p q. p \<in> L \<and> q \<in> M}"

primrec lang :: "re \<Rightarrow> string set" where
  "lang (Chars neg rs) = {[c] | c. in_class neg rs c}"
| "lang Eps = {[]}"
| "lang (Seq r s) = conc (lang r) (lang s)"
| "lang (Alt r s) = lang r \<union> lang s"
| "lang (Star r) = kstar (lang r)"

section \<open>The parser\<close>

text \<open>One character of a pattern, which a backslash may escape: \<open>x\<close> and two hexadecimal digits
  for a byte, any other character that is no letter and no digit for itself.\<close>

definition backslash :: char where "backslash = CHR 0x5C"

definition hex_digit :: "char \<Rightarrow> nat option" where
  "hex_digit c = (case index_byte c ''0123456789abcdef'' of
     Some i \<Rightarrow> Some i
   | None \<Rightarrow> map_option (\<lambda>i. i + 10) (index_byte c ''ABCDEF''))"

definition punctuation :: "char \<Rightarrow> bool" where
  "punctuation c \<longleftrightarrow>
     \<not> list_ex (in_range c)
         [(CHR ''0'', CHR ''9''), (CHR ''A'', CHR ''Z''), (CHR ''a'', CHR ''z'')]"

fun hex_escape :: "string \<Rightarrow> (char \<times> string) option" where
  "hex_escape (h # l # ds) =
     (case (hex_digit h, hex_digit l) of
        (Some a, Some b) \<Rightarrow> Some (char_of (16 * a + b), ds)
      | _ \<Rightarrow> None)"
| "hex_escape ds = None"

fun pattern_char :: "string \<Rightarrow> (char \<times> string) option" where
  "pattern_char [] = None"
| "pattern_char (c # cs) =
     (if c \<noteq> backslash then Some (c, cs)
      else (case cs of
              [] \<Rightarrow> None
            | d # ds \<Rightarrow>
                if d = CHR ''x'' then hex_escape ds
                else if punctuation d then Some (d, ds) else None))"

lemma hex_escape_length: "hex_escape ds = Some (c, s') \<Longrightarrow> length s' < length ds"
  by (induction ds rule: hex_escape.induct) (auto split: option.splits)

lemma pattern_char_length: "pattern_char s = Some (c, s') \<Longrightarrow> length s' < length s"
  by (induction s rule: pattern_char.induct)
    (auto split: if_splits list.splits dest: hex_escape_length)

text \<open>The inside of a class up to its closing bracket.\<close>

function class_items :: "string \<Rightarrow> ((char \<times> char) list \<times> string) option" where
  "class_items s =
     (if has_prefix '']'' s then Some ([], drop 1 s)
      else (case pattern_char s of
              None \<Rightarrow> None
            | Some (c, s') \<Rightarrow>
                if has_prefix ''-'' s' \<and> \<not> has_prefix ''-]'' s' then
                  (case pattern_char (drop 1 s') of
                     None \<Rightarrow> None
                   | Some (d, t) \<Rightarrow> map_option (\<lambda>(rs, u). ((c, d) # rs, u)) (class_items t))
                else map_option (\<lambda>(rs, u). ((c, c) # rs, u)) (class_items s')))"
  by pat_completeness auto
termination
  by (relation "measure length") (auto dest!: pattern_char_length)

datatype token = TChars bool "(char \<times> char) list" | TStar | TBar | TOpen | TClose

text \<open>The tokens of a pattern; the operators outside the fragment are refused.\<close>

definition next_token :: "string \<Rightarrow> (token \<times> string) option" where
  "next_token s =
     (case s of
        [] \<Rightarrow> None
      | c # cs \<Rightarrow>
          if c = CHR ''*'' then Some (TStar, cs)
          else if c = CHR ''|'' then Some (TBar, cs)
          else if c = CHR ''('' then Some (TOpen, cs)
          else if c = CHR '')'' then Some (TClose, cs)
          else if c = CHR ''['' then
            (let (neg, u) = (if has_prefix ''^'' cs then (True, drop 1 cs) else (False, cs))
             in map_option (\<lambda>(rs, v). (TChars neg rs, v)) (class_items u))
          else if c \<in> set ''.+?{}^$'' then None
          else map_option (\<lambda>(d, t). (TChars False [(d, d)], t)) (pattern_char s))"

lemma class_items_length: "class_items s = Some (rs, u) \<Longrightarrow> length u < length s"
proof (induction s arbitrary: rs u rule: class_items.induct)
  case (1 s)
  show ?case
  proof (cases "has_prefix '']'' s")
    case True
    then show ?thesis using "1.prems" by (cases s) (auto simp: has_prefix_def)
  next
    case False
    then obtain c s' where c: "pattern_char s = Some (c, s')"
      using "1.prems" by (auto split: option.splits)
    show ?thesis
    proof (cases "has_prefix ''-'' s' \<and> \<not> has_prefix ''-]'' s'")
      case True
      then obtain d t where d: "pattern_char (drop 1 s') = Some (d, t)"
        using "1.prems" False c by (auto split: option.splits)
      then obtain rs' where "class_items t = Some (rs', u)"
        using "1.prems" False c True by auto
      then have "length u < length t" using "1.IH"(1) [OF False c refl True d refl] by simp
      then show ?thesis using pattern_char_length [OF c] pattern_char_length [OF d] by simp
    next
      case nr: False
      then obtain rs' where "class_items s' = Some (rs', u)"
        using "1.prems" False c by auto
      then have "length u < length s'" using "1.IH"(2) [OF False c refl nr] by simp
      then show ?thesis using pattern_char_length [OF c] by simp
    qed
  qed
qed

lemma next_token_length: "next_token s = Some (k, t) \<Longrightarrow> length t < length s"
  by (auto simp: next_token_def Let_def simp del: class_items.simps split: list.splits if_splits
      dest!: class_items_length dest: pattern_char_length hex_escape_length)

function tokens :: "string \<Rightarrow> token list option" where
  "tokens s =
     (if s = [] then Some []
      else (case next_token s of
              None \<Rightarrow> None
            | Some (k, t) \<Rightarrow> map_option ((#) k) (tokens t)))"
  by pat_completeness auto
termination
  by (relation "measure length") (auto dest: next_token_length)

text \<open>A frame is what an open group has read: the alternatives behind bars, and the factors of
  the present one, the last first.\<close>

type_synonym frame = "re list \<times> re list"

definition seq_of :: "re list \<Rightarrow> re" where
  "seq_of fs = (case rev fs of [] \<Rightarrow> Eps | f # gs \<Rightarrow> foldl Seq f gs)"

definition frame_re :: "frame \<Rightarrow> re" where
  "frame_re fr = foldr (\<lambda>r u. Alt r u) (rev (fst fr)) (seq_of (snd fr))"

fun parse_token :: "token \<Rightarrow> frame list \<Rightarrow> frame list option" where
  "parse_token (TChars neg rs) ((bars, fs) # st) = Some ((bars, Chars neg rs # fs) # st)"
| "parse_token TStar ((bars, f # fs) # st) = Some ((bars, Star f # fs) # st)"
| "parse_token TBar ((bars, fs) # st) = Some ((seq_of fs # bars, []) # st)"
| "parse_token TOpen st = Some (([], []) # st)"
| "parse_token TClose (fr # (bars, fs) # st) = Some ((bars, frame_re fr # fs) # st)"
| "parse_token k st = None"

fun parse_tokens :: "token list \<Rightarrow> frame list \<Rightarrow> re option" where
  "parse_tokens [] st = (case st of [fr] \<Rightarrow> Some (frame_re fr) | _ \<Rightarrow> None)"
| "parse_tokens (k # ks) st =
     (case parse_token k st of None \<Rightarrow> None | Some st' \<Rightarrow> parse_tokens ks st')"

definition parse_re :: "string \<Rightarrow> re option" where
  "parse_re s = (case tokens s of None \<Rightarrow> None | Some ks \<Rightarrow> parse_tokens ks [([], [])])"

section \<open>Matching\<close>

text \<open>What is left of the text behind each match at its start, in the order in which a
  backtracking search finds them: the left alternative first, a star as often as it can.\<close>

function (sequential) runs :: "re \<Rightarrow> string \<Rightarrow> string list" where
  "runs (Chars neg rs) x =
     (case x of [] \<Rightarrow> [] | c # cs \<Rightarrow> if in_class neg rs c then [cs] else [])"
| "runs Eps x = [x]"
| "runs (Seq r s) x = concat (map (runs s) (runs r x))"
| "runs (Alt r s) x = runs r x @ runs s x"
| "runs (Star r) x =
     concat (map (\<lambda>y. if length y < length x then runs (Star r) y else []) (runs r x)) @ [x]"
  by pat_completeness auto
termination
  by (relation "measures [\<lambda>(r, x). size r, \<lambda>(r, x). length x]") auto

text \<open>The length of the match at the start of the text.\<close>

definition match_at :: "re \<Rightarrow> string \<Rightarrow> nat option" where
  "match_at r x = (case runs r x of [] \<Rightarrow> None | y # ys \<Rightarrow> Some (length x - length y))"

text \<open>\<open>ReplaceAll\<close> with nothing for each match, from left to right; an empty match takes
  nothing away.\<close>

function replace_all :: "re \<Rightarrow> string \<Rightarrow> string" where
  "replace_all r [] = []"
| "replace_all r (c # cs) =
     (case match_at r (c # cs) of
        Some (Suc n) \<Rightarrow> replace_all r (drop n cs)
      | _ \<Rightarrow> c # replace_all r cs)"
  by pat_completeness auto
termination
  by (relation "measure (\<lambda>(r, x). length x)") (auto simp: less_Suc_eq_le)

section \<open>Matching finds the language\<close>

lemma kstar_split:
  "w \<in> kstar L \<longleftrightarrow> w = [] \<or> (\<exists>p q. w = p @ q \<and> p \<noteq> [] \<and> p \<in> L \<and> q \<in> kstar L)"
proof
  assume "w \<in> kstar L"
  then show "w = [] \<or> (\<exists>p q. w = p @ q \<and> p \<noteq> [] \<and> p \<in> L \<and> q \<in> kstar L)"
  proof induction
    case (kstar_App p q)
    then show ?case by (cases p) (simp, blast)
  qed simp
qed (auto intro: kstar_App)

declare runs.simps(5) [simp del]

lemma runs_star_iff:
  assumes r: "\<And>x y. y \<in> set (runs r x) \<longleftrightarrow> (\<exists>p \<in> lang r. x = p @ y)"
  shows "y \<in> set (runs (Star r) x) \<longleftrightarrow> (\<exists>p \<in> kstar (lang r). x = p @ y)"
proof (induction x arbitrary: y rule: length_induct)
  case (1 x)
  have "y \<in> set (runs (Star r) x)
      \<longleftrightarrow> y = x \<or> (\<exists>z \<in> set (runs r x). length z < length x \<and> y \<in> set (runs (Star r) z))"
    by (subst runs.simps(5)) auto
  also have "\<dots> \<longleftrightarrow> y = x \<or> (\<exists>p z. p \<noteq> [] \<and> p \<in> lang r \<and> x = p @ z
      \<and> (\<exists>q \<in> kstar (lang r). z = q @ y))"
    (is "_ \<longleftrightarrow> _ \<or> ?more")
  proof -
    have "(\<exists>z \<in> set (runs r x). length z < length x \<and> y \<in> set (runs (Star r) z))
        \<longleftrightarrow> (\<exists>z. (\<exists>p \<in> lang r. x = p @ z) \<and> length z < length x
              \<and> (\<exists>q \<in> kstar (lang r). z = q @ y))"
      using 1 r by blast
    also have "\<dots> \<longleftrightarrow> ?more" by auto
    finally show ?thesis by simp
  qed
  also have "\<dots> \<longleftrightarrow> (\<exists>w \<in> kstar (lang r). x = w @ y)" (is "?l \<longleftrightarrow> ?r")
  proof
    assume ?l
    then show ?r using kstar_App [of _ "lang r"] by fastforce
  next
    assume ?r
    then obtain w where w: "w \<in> kstar (lang r)" "x = w @ y" by blast
    from w(1) show ?l by (subst (asm) kstar_split) (use w(2) in fastforce)
  qed
  finally show ?case .
qed

lemma runs_lang: "y \<in> set (runs r x) \<longleftrightarrow> (\<exists>p \<in> lang r. x = p @ y)"
proof (induction r arbitrary: x y)
  case (Chars neg rs)
  show ?case by (cases x) auto
next
  case (Seq r s)
  have "y \<in> set (runs (Seq r s) x) \<longleftrightarrow> (\<exists>z \<in> set (runs r x). y \<in> set (runs s z))" by simp
  also have "\<dots> \<longleftrightarrow> (\<exists>p \<in> lang r. \<exists>q \<in> lang s. x = p @ q @ y)"
    by (auto simp: Seq.IH) blast
  also have "\<dots> \<longleftrightarrow> (\<exists>w \<in> lang (Seq r s). x = w @ y)"
    by (simp only: lang.simps conc_def mem_Collect_eq Bex_def) (metis append.assoc)
  finally show ?case .
next
  case (Alt r s)
  then show ?case by auto
next
  case (Star r)
  then show ?case using runs_star_iff [of r y x] by simp
qed auto

lemma runs_suffix: "y \<in> set (runs r x) \<Longrightarrow> length y \<le> length x"
  by (auto simp: runs_lang)

lemma match_at_None: "match_at r x = None \<longleftrightarrow> (\<forall>n. take n x \<notin> lang r)"
proof -
  have "match_at r x = None \<longleftrightarrow> set (runs r x) = {}"
    by (auto simp: match_at_def split: list.split)
  also have "\<dots> \<longleftrightarrow> (\<forall>y. \<not> (\<exists>p \<in> lang r. x = p @ y))"
    by (simp only: set_eq_iff runs_lang empty_iff simp_thms)
  also have "\<dots> \<longleftrightarrow> (\<forall>n. take n x \<notin> lang r)"
    by (metis append_take_drop_id append_eq_conv_conj)
  finally show ?thesis .
qed

lemma match_at_Some: "match_at r x = Some n \<Longrightarrow> n \<le> length x \<and> take n x \<in> lang r"
proof -
  assume "match_at r x = Some n"
  then obtain y ys where "runs r x = y # ys" "n = length x - length y"
    by (auto simp: match_at_def split: list.splits)
  moreover then obtain p where "p \<in> lang r" "x = p @ y"
    using runs_lang [of y r x] by auto
  ultimately show ?thesis by simp
qed

text \<open>When no word of the language is a proper prefix of another, the match is the only one there
  is, whatever the order of the search.\<close>

lemma match_at_unique:
  assumes pf: "\<And>p q. p \<in> lang r \<Longrightarrow> p @ q \<in> lang r \<Longrightarrow> q = []"
  shows "match_at r x = Some n \<longleftrightarrow> n \<le> length x \<and> take n x \<in> lang r"
proof
  assume n: "n \<le> length x \<and> take n x \<in> lang r"
  then obtain m where m: "match_at r x = Some m" using match_at_None [of r x] by (cases "match_at r x") auto
  have same: "i \<le> j \<Longrightarrow> take i x \<in> lang r \<Longrightarrow> take j x \<in> lang r \<Longrightarrow> j \<le> length x \<Longrightarrow> i = j" for i j
    using pf [of "take i x" "take (j - i) (drop i x)"] take_add [of i "j - i" x] by auto
  from match_at_Some [OF m] n same [of n m] same [of m n] have "n = m" by linarith
  with m show "match_at r x = Some n" by simp
qed (rule match_at_Some)

lemma lang_char: "lang (Chars False [(c, c)]) = {[c]}"
  by (auto simp: in_class_def in_range_def)

lemma conc_assoc: "conc (conc L M) N = conc L (conc M N)"
  unfolding conc_def by (auto simp: append.assoc) (metis append.assoc)+

lemma conc_char: "conc {[c]} M = (#) c ` M"
  by (auto simp: conc_def)

lemma conc_char2: "conc {[a]} (conc {[b]} {w. P w}) = {s. \<exists>w. s = [a, b] @ w \<and> P w}"
  by (auto simp: conc_char)

lemma conc_Collect: "conc {p. P p} {q. Q q} = {w. \<exists>p q. w = p @ q \<and> P p \<and> Q q}"
  by (simp add: conc_def)

lemma kstar_chars: "kstar {[c] | c. P c} = {w. \<forall>c \<in> set w. P c}"
proof (intro set_eqI iffI)
  fix w assume "w \<in> kstar {[c] | c. P c}"
  then show "w \<in> {w. \<forall>c \<in> set w. P c}" by induction auto
next
  fix w assume "w \<in> {w. \<forall>c \<in> set w. P c}"
  then have "\<forall>c \<in> set w. P c" by simp
  then show "w \<in> kstar {[c] | c. P c}"
  proof (induction w)
    case (Cons c w)
    then show ?case using kstar_App [of "[c]" "{[c] | c. P c}" w] by simp
  qed auto
qed

end
