(* ===== verification/Shell.thy ===== *)
theory Shell
  imports Client_Env Go_Regexp
begin

text \<open>
  The shell of a session in \<open>cmd/rcpud/main.go\<close>: the command and environment it is started with
  (\<open>prepareShellCmd\<close>), the copying between the console file and the pseudo terminal
  (\<open>pipeConsToPty\<close>, \<open>pipePtyToCons\<close> with the ANSI filter) and the notes that become signals
  (\<open>monitorNotes\<close>, \<open>relayNotes\<close>). A file read in a loop is the list of the results of its
  reads, \<open>None\<close> for an error.
\<close>

section \<open>The command\<close>

text \<open>\<open>sc_cred\<close> is the \<open>Credential\<close> of the \<open>SysProcAttr\<close>, the user and group the process is started as;
  \<open>None\<close>, a nil pointer, leaves it the daemon's own.\<close>

record 'f shell_cmd =
  sc_path :: string
  sc_args :: "string list"
  sc_dir :: string
  sc_stdin :: 'f
  sc_stdout :: 'f
  sc_stderr :: 'f
  sc_setpgid :: bool
  sc_cred :: "(nat \<times> nat) option"
  sc_env :: "string list"

text \<open>\<open>os.Getenv\<close> takes the first entry of the name; the environment of a child is what
  \<open>os/exec\<close> makes of \<open>Cmd.Env\<close>: the last entry of a name counts.\<close>

definition split_kv :: "string \<Rightarrow> string \<times> string" where
  "split_kv kv =
     (case index_byte (CHR ''='') kv of
        Some i \<Rightarrow> (take i kv, drop (Suc i) kv) | None \<Rightarrow> (kv, []))"

definition getenv :: "string list \<Rightarrow> string \<Rightarrow> string" where
  "getenv environ k = (case map_of (map split_kv environ) k of Some v \<Rightarrow> v | None \<Rightarrow> [])"

definition exec_env :: "string list \<Rightarrow> string \<Rightarrow> string option" where
  "exec_env es k = map_of (rev (map split_kv es)) k"

definition has_cmd :: "client_env \<Rightarrow> bool" where
  "has_cmd env = (case env ''cmd'' of Some c \<Rightarrow> c \<noteq> [] \<and> c \<noteq> ''()'' | None \<Rightarrow> False)"

definition prepare_shell_cmd ::
    "string list \<Rightarrow> string \<Rightarrow> string \<Rightarrow> string \<Rightarrow> string \<Rightarrow> 'f \<Rightarrow> client_env \<Rightarrow> string
     \<Rightarrow> 'f shell_cmd" where
  "prepare_shell_cmd environ shell_path authed_user hname ns_dir slave client_env term =
     (let args = (if has_cmd client_env then [shell_path] else [shell_path, ''-li'']);
          dir = (case client_env ''dir'' of Some d \<Rightarrow> d | None \<Rightarrow> []);
          env = environ @
            [''hostname='' @ hname, ''USER='' @ authed_user, ''NAMESPACE='' @ ns_dir,
             ''PLAN9=/usr/local/plan9'',
             ''PATH=/usr/local/plan9/bin:'' @ getenv environ ''PATH'',
             ''service=cpu'']
            @ (if term \<noteq> [] then [''TERM='' @ term] else [])
      in \<lparr>sc_path = shell_path, sc_args = args, sc_dir = dir, sc_stdin = slave, sc_stdout = slave,
          sc_stderr = slave, sc_setpgid = True, sc_cred = None, sc_env = env\<rparr>)"

text \<open>The shell a session runs: \<open>resolveShell\<close> and then the command.\<close>

definition session_cmd ::
    "string list \<Rightarrow> string \<Rightarrow> string \<Rightarrow> string \<Rightarrow> 'f \<Rightarrow> client_env \<Rightarrow> string \<Rightarrow> 'f shell_cmd" where
  "session_cmd environ authed_user hname ns_dir slave client_env term =
     prepare_shell_cmd environ (resolve_shell client_env) authed_user hname ns_dir slave client_env term"

lemma split_kv_pair: "CHR ''='' \<notin> set k \<Longrightarrow> split_kv (k @ CHR ''='' # v) = (k, v)"
  by (simp add: split_kv_def index_byte_append)

lemma session_cmd_env:
  "exec_env (sc_env (session_cmd environ user hname ns slave cenv term)) =
     (\<lambda>k. if k = ''TERM'' \<and> term \<noteq> [] then Some term
          else if k = ''service'' then Some ''cpu''
          else if k = ''PATH'' then Some (''/usr/local/plan9/bin:'' @ getenv environ ''PATH'')
          else if k = ''PLAN9'' then Some ''/usr/local/plan9''
          else if k = ''NAMESPACE'' then Some ns
          else if k = ''USER'' then Some user
          else if k = ''hostname'' then Some hname
          else exec_env environ k)"
proof -
  have kv: "split_kv (''TERM='' @ v) = (''TERM'', v)" "split_kv ''service=cpu'' = (''service'', ''cpu'')"
    "split_kv (''PATH='' @ v) = (''PATH'', v)"
    "split_kv ''PLAN9=/usr/local/plan9'' = (''PLAN9'', ''/usr/local/plan9'')"
    "split_kv (''NAMESPACE='' @ v) = (''NAMESPACE'', v)" "split_kv (''USER='' @ v) = (''USER'', v)"
    "split_kv (''hostname='' @ v) = (''hostname'', v)" for v
    by (simp_all add: split_kv_def)
  have p: "''PATH=/usr/local/plan9/bin:'' @ v = ''PATH='' @ ''/usr/local/plan9/bin:'' @ v" for v
    by simp
  show ?thesis
    unfolding session_cmd_def prepare_shell_cmd_def Let_def p
    by (auto simp: exec_env_def fun_eq_iff kv [simplified])
qed

lemma session_cmd_fields:
  "sc_path (session_cmd environ user hname ns slave cenv term) = resolve_shell cenv"
  "sc_stdin (session_cmd environ user hname ns slave cenv term) = slave"
  "sc_cred (session_cmd environ user hname ns slave cenv term) = None"
  by (simp_all add: session_cmd_def prepare_shell_cmd_def Let_def)

text \<open>The environment of the shell: the user, the name space, the host, the Plan 9
  variables and the terminal are those of the session, whatever the daemon's own environment
  says; every other variable is the daemon's. Of what the client sent, only \<open>cmd\<close> and \<open>dir\<close>
  reach the shell.\<close>

lemma shell_environment:
  "exec_env (sc_env (session_cmd environ user hname ns slave cenv term)) =
     (\<lambda>k. if k = ''TERM'' \<and> term \<noteq> [] then Some term
          else if k = ''service'' then Some ''cpu''
          else if k = ''PATH'' then Some (''/usr/local/plan9/bin:'' @ getenv environ ''PATH'')
          else if k = ''PLAN9'' then Some ''/usr/local/plan9''
          else if k = ''NAMESPACE'' then Some ns
          else if k = ''USER'' then Some user
          else if k = ''hostname'' then Some hname
          else exec_env environ k)
   \<and> (cenv ''cmd'' = cenv' ''cmd'' \<longrightarrow> cenv ''dir'' = cenv' ''dir'' \<longrightarrow>
      session_cmd environ user hname ns slave cenv term
      = session_cmd environ user hname ns slave cenv' term)"
proof (intro conjI impI)
  assume "cenv ''cmd'' = cenv' ''cmd''" "cenv ''dir'' = cenv' ''dir''"
  then show "session_cmd environ user hname ns slave cenv term
      = session_cmd environ user hname ns slave cenv' term"
    by (simp add: session_cmd_def prepare_shell_cmd_def resolve_shell_def has_cmd_def)
qed (rule session_cmd_env)

lemma shell_environment_example:
  "exec_env (sc_env (session_cmd [''PATH=/bin'', ''USER=root''] ''glenda'' ''h'' ''/n'' () [''USER'' \<mapsto> ''root''] []))
     ''USER'' = Some ''glenda''
   \<and> session_cmd [] ''glenda'' ''h'' ''/n'' () [''PATH'' \<mapsto> ''/tmp''] [] = session_cmd [] ''glenda'' ''h'' ''/n'' () Map.empty []"
  using shell_environment [of "[''PATH=/bin'', ''USER=root'']" "''glenda''" "''h''" "''/n''" "()"
      "[''USER'' \<mapsto> ''root'']" "[]" "[''USER'' \<mapsto> ''root'']"]
    shell_environment [of "[]" "''glenda''" "''h''" "''/n''" "()" "[''PATH'' \<mapsto> ''/tmp'']" "[]" Map.empty]
  by simp

section \<open>The ANSI filter\<close>

text \<open>\<open>ansiRegexp\<close>, character by character; \<open>unraw\<close> writes a tilde for the backslash, which
  a HOL string cannot hold (the pattern has no tilde of its own).\<close>

definition unraw :: "string \<Rightarrow> string" where
  "unraw s = map (\<lambda>c. if c = CHR ''~'' then backslash else c) s"

definition ansi_pattern :: "string" where
  "ansi_pattern =
     unraw ''~x1b~[[0-9;?]*[a-zA-Z]|~x1b~][0-9;]*[^~x1b~x07]*(~x07|~x1b~~)|~x1b[PX^_]''"

definition ansi_regexp :: re where
  "ansi_regexp = (case parse_re ansi_pattern of Some r \<Rightarrow> r | None \<Rightarrow> Eps)"

text \<open>\<open>ansiRegexp.ReplaceAll(data, []byte{})\<close>.\<close>

definition strip_ansi :: "string \<Rightarrow> string" where
  "strip_ansi s = replace_all ansi_regexp s"

text \<open>What the filter is for: a terminal's control sequence (escape, an opening bracket,
  parameter characters and a letter), an operating system command (escape, a closing bracket and
  text up to a bell or to escape and a backslash), and the two-byte openers of the other
  strings.\<close>

definition esc :: char where "esc = CHR 0x1B"
definition bel :: char where "bel = CHR 0x07"

definition csi_param :: "char \<Rightarrow> bool" where
  "csi_param c \<longleftrightarrow> c \<in> set ''0123456789;?''"

definition letter :: "char \<Rightarrow> bool" where
  "letter c \<longleftrightarrow> c \<in> set ''ABCDEFGHIJKLMNOPQRSTUVWXYZabcdefghijklmnopqrstuvwxyz''"

definition ansi_seq :: "string \<Rightarrow> bool" where
  "ansi_seq s \<longleftrightarrow>
     (\<exists>ps l. s = [esc, CHR ''[''] @ ps @ [l] \<and> (\<forall>p \<in> set ps. csi_param p) \<and> letter l)
     \<or> (\<exists>body t. s = [esc, CHR '']''] @ body @ t \<and> esc \<notin> set body \<and> bel \<notin> set body
          \<and> (t = [bel] \<or> t = [esc, CHR 0x5C]))
     \<or> (\<exists>c \<in> set ''PX^_''. s = [esc, c])"

text \<open>The expression the pattern stands for.\<close>

lemma parse_ansi_pattern:
  "parse_re ansi_pattern = Some
     (Alt (Seq (Seq (Seq (Chars False [(esc, esc)]) (Chars False [(CHR ''['', CHR ''['')]))
                 (Star (Chars False [(CHR ''0'', CHR ''9''), (CHR '';'', CHR '';''), (CHR ''?'', CHR ''?'')])))
            (Chars False [(CHR ''a'', CHR ''z''), (CHR ''A'', CHR ''Z'')]))
     (Alt (Seq (Seq (Seq (Seq (Chars False [(esc, esc)]) (Chars False [(CHR '']'', CHR '']'')]))
                 (Star (Chars False [(CHR ''0'', CHR ''9''), (CHR '';'', CHR '';'')])))
                 (Star (Chars True [(esc, esc), (bel, bel)])))
            (Alt (Chars False [(bel, bel)])
              (Seq (Chars False [(esc, esc)]) (Chars False [(backslash, backslash)]))))
       (Seq (Chars False [(esc, esc)])
         (Chars False [(CHR ''P'', CHR ''P''), (CHR ''X'', CHR ''X''), (CHR ''^'', CHR ''^''), (CHR ''_'', CHR ''_'')]))))"
  by code_simp

lemmas ansi_regexp_eq = parse_ansi_pattern [THEN arg_cong, of "case_option Eps (\<lambda>r. r)",
    simplified option.case, folded ansi_regexp_def]

text \<open>Its classes.\<close>

lemma in_range_same: "in_range c (d, d) \<longleftrightarrow> c = d"
  by (auto simp: in_range_def)

lemma in_class_params:
  "in_class False [(CHR ''0'', CHR ''9''), (CHR '';'', CHR '';''), (CHR ''?'', CHR ''?'')] c \<longleftrightarrow> csi_param c"
proof -
  have "\<forall>c. in_class False [(CHR ''0'', CHR ''9''), (CHR '';'', CHR '';''), (CHR ''?'', CHR ''?'')] c \<longleftrightarrow> csi_param c"
    by code_simp
  then show ?thesis by blast
qed

lemma in_class_letters:
  "in_class False [(CHR ''a'', CHR ''z''), (CHR ''A'', CHR ''Z'')] c \<longleftrightarrow> letter c"
proof -
  have "\<forall>c. in_class False [(CHR ''a'', CHR ''z''), (CHR ''A'', CHR ''Z'')] c \<longleftrightarrow> letter c"
    by code_simp
  then show ?thesis by blast
qed

lemma in_class_body: "in_class True [(esc, esc), (bel, bel)] c \<longleftrightarrow> c \<noteq> esc \<and> c \<noteq> bel"
  by (auto simp: in_class_def in_range_same)

text \<open>Its language is the set of the terminal's sequences.\<close>

lemma lang_params:
  "lang (Star (Chars False [(CHR ''0'', CHR ''9''), (CHR '';'', CHR '';''), (CHR ''?'', CHR ''?'')]))
   = {w. \<forall>c \<in> set w. csi_param c}"
  by (simp only: lang.simps kstar_chars in_class_params)

lemma lang_csi:
  "lang (Seq (Seq (Seq (Chars False [(esc, esc)]) (Chars False [(CHR ''['', CHR ''['')]))
       (Star (Chars False [(CHR ''0'', CHR ''9''), (CHR '';'', CHR '';''), (CHR ''?'', CHR ''?'')])))
     (Chars False [(CHR ''a'', CHR ''z''), (CHR ''A'', CHR ''Z'')]))
   = {s. \<exists>ps l. s = [esc, CHR ''[''] @ ps @ [l] \<and> (\<forall>p \<in> set ps. csi_param p) \<and> letter l}"
proof -
  have "lang (Chars False [(CHR ''a'', CHR ''z''), (CHR ''A'', CHR ''Z'')]) = {w. \<exists>l. w = [l] \<and> letter l}"
    by (simp add: in_class_letters)
  then show ?thesis
    unfolding lang.simps(3) lang_params lang_char conc_assoc
    by (simp only: conc_Collect conc_char2) auto
qed

lemma lang_osc_body:
  "lang (Seq (Star (Chars False [(CHR ''0'', CHR ''9''), (CHR '';'', CHR '';'')]))
       (Star (Chars True [(esc, esc), (bel, bel)])))
   = {w. esc \<notin> set w \<and> bel \<notin> set w}"
proof -
  let ?d = "in_class False [(CHR ''0'', CHR ''9''), (CHR '';'', CHR '';'')]"
  have d: "\<not> ?d esc" "\<not> ?d bel" by code_simp+
  have "(\<exists>p q. w = p @ q \<and> (\<forall>c \<in> set p. ?d c) \<and> (\<forall>c \<in> set q. c \<noteq> esc \<and> c \<noteq> bel))
      \<longleftrightarrow> esc \<notin> set w \<and> bel \<notin> set w" (is "?l \<longleftrightarrow> ?r") for w
  proof
    show "?l \<Longrightarrow> ?r" using d by auto
    show "?r \<Longrightarrow> ?l" by (rule exI [of _ "[]"], rule exI [of _ w]) auto
  qed
  then show ?thesis
    by (simp only: lang.simps kstar_chars in_class_body conc_Collect)
qed

lemma lang_osc:
  "lang (Seq (Seq (Seq (Seq (Chars False [(esc, esc)]) (Chars False [(CHR '']'', CHR '']'')]))
       (Star (Chars False [(CHR ''0'', CHR ''9''), (CHR '';'', CHR '';'')])))
       (Star (Chars True [(esc, esc), (bel, bel)])))
     (Alt (Chars False [(bel, bel)])
       (Seq (Chars False [(esc, esc)]) (Chars False [(backslash, backslash)]))))
   = {s. \<exists>body t. s = [esc, CHR '']''] @ body @ t \<and> esc \<notin> set body \<and> bel \<notin> set body
          \<and> (t = [bel] \<or> t = [esc, CHR 0x5C])}" (is "lang (Seq (Seq (Seq (Seq ?e ?b) ?d) ?n) ?t) = _")
proof -
  have t: "lang ?t = {t. t = [bel] \<or> t = [esc, CHR 0x5C]}"
    by (auto simp: lang_char conc_char backslash_def simp del: lang.simps(1))
  have "lang (Seq (Seq (Seq (Seq ?e ?b) ?d) ?n) ?t)
      = conc (lang ?e) (conc (lang ?b) (conc (lang (Seq ?d ?n)) (lang ?t)))"
    by (simp only: lang.simps(3) conc_assoc)
  also have "\<dots> = (#) esc ` (#) (CHR '']'') `
      {w. \<exists>p q. w = p @ q \<and> (esc \<notin> set p \<and> bel \<notin> set p) \<and> (q = [bel] \<or> q = [esc, CHR 0x5C])}"
    by (simp only: lang_char conc_char lang_osc_body t conc_Collect)
  finally show ?thesis by auto
qed

lemma lang_ansi: "lang ansi_regexp = Collect ansi_seq"
proof -
  have two: "lang (Seq (Chars False [(esc, esc)])
         (Chars False [(CHR ''P'', CHR ''P''), (CHR ''X'', CHR ''X''), (CHR ''^'', CHR ''^''), (CHR ''_'', CHR ''_'')]))
     = {s. \<exists>c \<in> set ''PX^_''. s = [esc, c]}"
    unfolding lang.simps(3) lang_char conc_char by (auto simp: in_class_def in_range_same)
  show ?thesis
    unfolding ansi_regexp_eq lang.simps(4) lang_csi lang_osc two
    by (rule set_eqI) (simp only: mem_Collect_eq Un_iff ansi_seq_def)
qed

text \<open>How long the sequence at the start of a text is, if one starts there: the first two bytes tell
  the three kinds apart, and no sequence is a proper prefix of another.\<close>

fun csi_len :: "string \<Rightarrow> nat option" where
  "csi_len [] = None"
| "csi_len (c # cs) =
     (if letter c then Some 1 else if csi_param c then map_option Suc (csi_len cs) else None)"

fun osc_len :: "string \<Rightarrow> nat option" where
  "osc_len [] = None"
| "osc_len (c # cs) =
     (if c = bel then Some 1
      else if c = esc then (if has_prefix [CHR 0x5C] cs then Some 2 else None)
      else map_option Suc (osc_len cs))"

definition ansi_match :: "string \<Rightarrow> nat option" where
  "ansi_match s =
     (case s of
        e # c # cs \<Rightarrow>
          if e \<noteq> esc then None
          else if c = CHR ''['' then map_option (\<lambda>n. n + 2) (csi_len cs)
          else if c = CHR '']'' then map_option (\<lambda>n. n + 2) (osc_len cs)
          else if c \<in> set ''PX^_'' then Some 2
          else None
      | _ \<Rightarrow> None)"

lemma ansi_match_pos: "ansi_match s = Some n \<Longrightarrow> 2 \<le> n"
  by (auto simp: ansi_match_def split: list.splits if_splits)

lemma letter_no_param: "letter c \<Longrightarrow> \<not> csi_param c"
  by (auto simp: letter_def csi_param_def)

lemma csi_len_Some:
  "csi_len s = Some n \<longleftrightarrow> n \<le> length s \<and> (\<exists>ps l. take n s = ps @ [l] \<and> (\<forall>p \<in> set ps. csi_param p) \<and> letter l)"
proof (induction s arbitrary: n)
  case Nil
  show ?case by auto
next
  case (Cons c cs)
  show ?case
  proof (cases n)
    case 0
    then show ?thesis by auto
  next
    case (Suc m)
    have "(\<exists>ps l. c # take m cs = ps @ [l] \<and> (\<forall>p \<in> set ps. csi_param p) \<and> letter l)
        \<longleftrightarrow> (take m cs = [] \<and> letter c)
          \<or> csi_param c \<and> (\<exists>ps l. take m cs = ps @ [l] \<and> (\<forall>p \<in> set ps. csi_param p) \<and> letter l)"
      by (auto simp: Cons_eq_append_conv) (metis set_ConsD append_Cons)+
    then show ?thesis
      using Suc Cons.IH [of m] letter_no_param [of c] by (cases cs; cases m) auto
  qed
qed

lemma osc_len_Some:
  "osc_len s = Some n \<longleftrightarrow> n \<le> length s \<and> (\<exists>body t. take n s = body @ t \<and> esc \<notin> set body
     \<and> bel \<notin> set body \<and> (t = [bel] \<or> t = [esc, CHR 0x5C]))"
proof (induction s arbitrary: n)
  case Nil
  show ?case by auto
next
  case (Cons c cs)
  define tail where "tail = (\<lambda>t. t = [bel] \<or> t = [esc, CHR 0x5C :: char])"
  define osc where "osc = (\<lambda>s. \<exists>body t. s = body @ t \<and> esc \<notin> set body \<and> bel \<notin> set body \<and> tail t)"
  have tl: "tail t \<Longrightarrow> t \<noteq> []" for t by (auto simp: tail_def)
  have step: "osc (c # w) \<longleftrightarrow> tail (c # w) \<or> c \<noteq> esc \<and> c \<noteq> bel \<and> osc w" for w
  proof
    assume "osc (c # w)"
    then obtain body t where "c # w = body @ t" "esc \<notin> set body" "bel \<notin> set body" "tail t"
      by (auto simp: osc_def)
    then show "tail (c # w) \<or> c \<noteq> esc \<and> c \<noteq> bel \<and> osc w"
      by (cases body) (auto simp: osc_def)
  next
    assume "tail (c # w) \<or> c \<noteq> esc \<and> c \<noteq> bel \<and> osc w"
    then show "osc (c # w)"
    proof
      assume "tail (c # w)"
      then show ?thesis unfolding osc_def by (intro exI [of _ "[]"] exI [of _ "c # w"]) simp
    next
      assume a: "c \<noteq> esc \<and> c \<noteq> bel \<and> osc w"
      then obtain body t where "w = body @ t" "esc \<notin> set body" "bel \<notin> set body" "tail t"
        by (auto simp: osc_def)
      with a show ?thesis
        unfolding osc_def by (intro exI [of _ "c # body"] exI [of _ t]) auto
    qed
  qed
  have hd: "tail (c # w) \<longleftrightarrow> c = bel \<and> w = [] \<or> c = esc \<and> w = [CHR 0x5C]" for w
    by (auto simp: tail_def)
  have eb: "esc \<noteq> bel" by (simp add: esc_def bel_def)
  have pre: "has_prefix [CHR 0x5C] cs \<longleftrightarrow> 1 \<le> length cs \<and> take 1 cs = [CHR 0x5C]"
    by (cases cs) (auto simp: has_prefix_def)
  show ?case
  proof (cases n)
    case 0
    then show ?thesis by auto
  next
    case (Suc m)
    have ih: "osc_len cs = Some m \<longleftrightarrow> m \<le> length cs \<and> osc (take m cs)"
      using Cons.IH [of m] by (simp add: osc_def tail_def)
    have "osc_len (c # cs) = Some n \<longleftrightarrow> n \<le> length (c # cs) \<and> osc (take n (c # cs))"
    proof (cases "c = esc")
      case True
      have "m \<le> length cs \<Longrightarrow> take m cs = [CHR 0x5C] \<longleftrightarrow> m = 1 \<and> take 1 cs = [CHR 0x5C]"
        by (cases m; cases cs) auto
      then show ?thesis
        using Suc True eb step [of "take m cs"] hd [of "take m cs"] pre by auto
    next
      case False
      then show ?thesis
        using Suc eb ih step [of "take m cs"] hd [of "take m cs"]
        by (cases "c = bel"; cases m) (auto simp: osc_def dest: tl)
    qed
    then show ?thesis by (simp add: osc_def tail_def)
  qed
qed


lemma ansi_seq_length: "ansi_seq p \<Longrightarrow> 2 \<le> length p"
  by (auto simp: ansi_seq_def)

lemma ansi_match_iff:
  "ansi_match s = Some n \<longleftrightarrow> n \<le> length s \<and> ansi_seq (take n s)"
proof (cases s)
  case Nil
  then show ?thesis by (simp add: ansi_match_def ansi_seq_def)
next
  case (Cons e u)
  show ?thesis
  proof (cases u)
    case Nil
    then show ?thesis using Cons by (cases n) (auto simp: ansi_match_def ansi_seq_def)
  next
    case u: (Cons c cs)
    consider "n < 2" | m where "n = Suc (Suc m)" by (metis not_less_eq less_2_cases_iff gr0_implies_Suc not_gr_zero)
    then show ?thesis
    proof cases
      case 1
      then have "length (take n s) < 2" by simp
      then have "\<not> ansi_seq (take n s)" using ansi_seq_length [of "take n s"] by linarith
      then show ?thesis using ansi_match_pos [of s n] 1 by auto
    next
      case 2
      show ?thesis
        unfolding 2 Cons u
        by (auto simp: ansi_match_def ansi_seq_def csi_len_Some osc_len_Some)
    qed
  qed
qed

lemma ansi_match_seq: "ansi_seq p \<Longrightarrow> ansi_match (p @ later) = Some (length p)"
  by (simp add: ansi_match_iff)

lemma ansi_seq_prefix: "ansi_seq p \<Longrightarrow> ansi_seq (p @ q) \<Longrightarrow> q = []"
  using ansi_match_seq [of p q] ansi_match_seq [of "p @ q" "[]"] by simp

lemma match_at_ansi: "match_at ansi_regexp s = Some n \<longleftrightarrow> n \<le> length s \<and> ansi_seq (take n s)"
  using match_at_unique [of ansi_regexp s n] ansi_seq_prefix by (auto simp: lang_ansi)

lemma match_at_ansi_match: "match_at ansi_regexp s = ansi_match s"
  by (metis match_at_ansi ansi_match_iff option.exhaust)

text \<open>Claim C17. The pattern \<open>ansiRegexp\<close> of the source, read as \<open>regexp.MustCompile\<close> reads it
  and searched in the order of a backtracking matcher, matches \<open>n\<close> bytes at a position exactly
  when the next \<open>n\<close> bytes are a terminal sequence: a control sequence, an operating system
  command up to its bell or its escape and backslash, or one of the four two-byte openers.
  It matches nothing exactly when no number of the next bytes is such a sequence.\<close>

theorem ansi_regexp_matches:
  "(match_at ansi_regexp s = Some n \<longleftrightarrow> n \<le> length s \<and> ansi_seq (take n s))
   \<and> (match_at ansi_regexp s = None \<longleftrightarrow> (\<forall>m. \<not> ansi_seq (take m s)))"
  using match_at_ansi [of s n] match_at_None [of ansi_regexp s] by (simp add: lang_ansi)

lemma ansi_seq_csi:
  "\<forall>p \<in> set ps. csi_param p \<Longrightarrow> letter l \<Longrightarrow> ansi_seq ([esc, CHR ''[''] @ ps @ [l])"
  unfolding ansi_seq_def by blast

lemma demo_seq: "ansi_seq [esc, CHR ''['', CHR ''3'', CHR ''1'', CHR ''m'']"
  using ansi_seq_csi [of "''31''" "CHR ''m''"]
  by (simp add: csi_param_def letter_def is_digit_def digit_val_def)

text \<open>Text without escape bytes and sequences of the language.\<close>

lemma strip_ansi_Nil: "strip_ansi [] = []"
  by (simp add: strip_ansi_def)

lemma strip_ansi_Cons:
  "strip_ansi (c # cs) =
     (case ansi_match (c # cs) of
        Some n \<Rightarrow> strip_ansi (drop n (c # cs)) | None \<Rightarrow> c # strip_ansi cs)"
proof (cases "ansi_match (c # cs)")
  case (Some n)
  then obtain m where "n = Suc m" using ansi_match_pos [OF Some] by (cases n) auto
  with Some show ?thesis by (simp add: strip_ansi_def match_at_ansi_match)
qed (simp add: strip_ansi_def match_at_ansi_match)

lemma strip_ansi_plain: "esc \<notin> set p \<Longrightarrow> strip_ansi (p @ s) = p @ strip_ansi s"
proof (induction p)
  case (Cons c p)
  then have "ansi_match (c # p @ s) = None"
    by (auto simp: ansi_match_def split: list.split)
  with Cons show ?case by (simp add: strip_ansi_Cons)
qed simp

lemma strip_ansi_seq: "ansi_seq p \<Longrightarrow> strip_ansi (p @ s) = strip_ansi s"
proof -
  assume p: "ansi_seq p"
  then obtain c cs where "p = c # cs" by (cases p) (auto simp: ansi_seq_def)
  then show ?thesis using ansi_match_seq [OF p, of s] by (simp add: strip_ansi_Cons)
qed

lemma strip_ansi_lone: "esc \<notin> set s \<Longrightarrow> strip_ansi s = s \<and> strip_ansi [esc] = [esc]"
  using strip_ansi_plain [of s "[]"] by (simp add: strip_ansi_Nil strip_ansi_Cons ansi_match_def)

text \<open>A text cut from left to right into sequences and, where none starts, single bytes.\<close>

fun ansi_pieces :: "string list \<Rightarrow> bool" where
  "ansi_pieces [] \<longleftrightarrow> True"
| "ansi_pieces (p # ps) \<longleftrightarrow>
     (ansi_seq p \<or> length p = 1 \<and> (\<forall>n. \<not> ansi_seq (take n (p @ concat ps)))) \<and> ansi_pieces ps"

lemma ansi_match_None: "ansi_match s = None \<longleftrightarrow> (\<forall>n. \<not> ansi_seq (take n s))"
  using match_at_None [of ansi_regexp s] by (simp add: match_at_ansi_match lang_ansi)

text \<open>Claim C18. For every text: it can be cut from left to right into terminal sequences and,
  at each position where no sequence starts, one single byte, and what the filter leaves are
  exactly those single bytes, in order. So whatever is not part of a sequence is kept, an escape
  byte that starts no sequence and an unfinished sequence included.\<close>

theorem strip_ansi_removes_sequences:
  "\<exists>pieces. ansi_pieces pieces \<and> concat pieces = s
     \<and> strip_ansi s = concat (filter (\<lambda>p. \<not> ansi_seq p) pieces)"
proof (induction s rule: length_induct)
  case (1 s)
  show ?case
  proof (cases s)
    case Nil
    then show ?thesis by (intro exI [of _ "[]"]) (simp add: strip_ansi_Nil)
  next
    case (Cons c cs)
    show ?thesis
    proof (cases "ansi_match s")
      case None
      obtain ps where ps: "ansi_pieces ps" "concat ps = cs"
          "strip_ansi cs = concat (filter (\<lambda>p. \<not> ansi_seq p) ps)"
        using 1 Cons by auto
      have "\<not> ansi_seq [c]" by (auto dest: ansi_seq_length)
      then show ?thesis
        using None ps Cons ansi_match_None [of s]
        by (intro exI [of _ "[c] # ps"]) (simp add: strip_ansi_Cons)
    next
      case (Some n)
      then have n: "n \<le> length s" "ansi_seq (take n s)" "0 < n"
        using ansi_match_iff [of s n] ansi_match_pos [of s n] by auto
      then have "length (drop n s) < length s" using Cons by auto
      then obtain ps where ps: "ansi_pieces ps" "concat ps = drop n s"
          "strip_ansi (drop n s) = concat (filter (\<lambda>p. \<not> ansi_seq p) ps)"
        using 1 by blast
      then show ?thesis
        using Some n Cons
        by (intro exI [of _ "take n s # ps"]) (simp add: strip_ansi_Cons)
    qed
  qed
qed

lemma strip_ansi_example:
  "strip_ansi (esc # ''[31mred'' @ [esc, CHR ''X''] @ ''!'' @ [esc] @ ''[3'') = ''red!'' @ [esc] @ ''[3''"
  by code_simp

section \<open>Copying\<close>

text \<open>Console to terminal: the offsets asked for and the buffers written.\<close>

fun pipe_cons_to_pty :: "string option list \<Rightarrow> nat \<Rightarrow> nat list \<times> string list" where
  "pipe_cons_to_pty [] offset = ([], [])"
| "pipe_cons_to_pty (None # rs) offset = ([offset], [])"
| "pipe_cons_to_pty (Some bs # rs) offset =
     (if bs = [] then ([offset], [])
      else
        let (offs, ws) = pipe_cons_to_pty rs (offset + length bs) in (offset # offs, bs # ws))"

text \<open>Terminal to console; an empty read is ignored.\<close>

fun pipe_pty_to_cons :: "bool \<Rightarrow> string option list \<Rightarrow> string list" where
  "pipe_pty_to_cons strip [] = []"
| "pipe_pty_to_cons strip (None # rs) = []"
| "pipe_pty_to_cons strip (Some bs # rs) =
     (if bs = [] then pipe_pty_to_cons strip rs
      else (if strip then strip_ansi bs else bs) # pipe_pty_to_cons strip rs)"

lemma pipe_cons_offsets:
  "[] \<notin> set bss \<Longrightarrow> stop = None \<or> stop = Some [] \<Longrightarrow>
   pipe_cons_to_pty (map Some bss @ stop # rs) off =
     (map (\<lambda>i. off + length (concat (take i bss))) [0..<Suc (length bss)], bss)"
proof (induction bss arbitrary: off)
  case Nil
  then show ?case by auto
next
  case (Cons b bss)
  have "[0..<Suc (length (b # bss))] = 0 # map Suc [0..<Suc (length bss)]"
    by (simp add: upt_conv_Cons map_Suc_upt del: upt_Suc)
  with Cons show ?case by (auto simp: comp_def add.assoc simp del: upt_Suc)
qed

text \<open>What the user types reaches the terminal once and in order, until the console
  file ends or fails: each read asks for the offset where the one before it ended.\<close>

lemma pipe_cons_in_order:
  assumes "[] \<notin> set bss" and "stop = None \<or> stop = Some []"
  shows "pipe_cons_to_pty (map Some bss @ stop # rs) 0 =
     (map (\<lambda>i. length (concat (take i bss))) [0..<Suc (length bss)], bss)"
  using pipe_cons_offsets [OF assms, of rs 0] by simp

lemma pipe_cons_in_order_example:
  "pipe_cons_to_pty [Some ''ls'', Some ''.'', None] 0 = ([0, 2, 3], [''ls'', ''.''])"
  using pipe_cons_in_order [of "[''ls'', ''.'']" None "[]"] by simp

text \<open>The filter works on one read of 4096 bytes at a time: a colour sequence that the
  reads cut after its escape byte reaches the console whole, although the same bytes in one
  read are removed.\<close>

lemma pipe_pty_split_sequence:
  assumes "\<forall>p \<in> set ps. csi_param p" and "letter l"
  shows "pipe_pty_to_cons True [Some ([esc, CHR ''[''] @ ps @ [l])] = [[]]
    \<and> concat (pipe_pty_to_cons True [Some [esc], Some (CHR ''['' # ps @ [l])])
      = [esc, CHR ''[''] @ ps @ [l]"
proof -
  have "\<not> csi_param esc" "\<not> letter esc"
    by (simp_all add: csi_param_def letter_def esc_def is_digit_def digit_val_def)
  then have "esc \<notin> set (CHR ''['' # ps @ [l])"
    using assms by (auto simp: esc_def)
  moreover have "strip_ansi ([esc, CHR ''[''] @ ps @ [l]) = []"
    using strip_ansi_seq [OF ansi_seq_csi [OF assms], of "[]"] by (simp add: strip_ansi_Nil)
  ultimately show ?thesis
    using strip_ansi_lone [of "CHR ''['' # ps @ [l]"] by simp
qed

lemma pipe_pty_split_sequence_example:
  "concat (pipe_pty_to_cons True [Some [esc], Some ''[31m'']) = esc # ''[31m''"
  using pipe_pty_split_sequence [of "''31''" "CHR ''m''"]
  by (simp add: csi_param_def letter_def is_digit_def digit_val_def)

section \<open>Notes\<close>

text \<open>Each read of the note file is one note; a failed or empty read ends the watcher.\<close>

fun monitor_notes :: "string option list \<Rightarrow> string list" where
  "monitor_notes [] = []"
| "monitor_notes (None # rs) = []"
| "monitor_notes (Some bs # rs) = (if bs = [] then [] else trim_space bs # monitor_notes rs)"

text \<open>The process groups that get a SIGINT, as arguments of \<open>kill\<close>; \<open>pgid\<close> is the answer of
  \<open>Getpgid\<close> at that note.\<close>

fun relay_notes :: "(string \<times> int option) list \<Rightarrow> int list" where
  "relay_notes [] = []"
| "relay_notes ((note, pgid) # ns) =
     (if note = ''interrupt'' \<or> note = ''del'' then
        (case pgid of
           Some g \<Rightarrow> (if g > 0 then - g # relay_notes ns else relay_notes ns)
         | None \<Rightarrow> relay_notes ns)
      else relay_notes ns)"

text \<open>The shell's process group gets one SIGINT for each \<open>interrupt\<close> or \<open>del\<close> note the
  client writes before the note file ends, white space around it ignored, and no other note or
  failed lookup ever signals anything.\<close>

lemma notes_become_signals:
  assumes "\<forall>s \<in> set ss. s \<noteq> []" and "0 < g"
  shows "relay_notes (map (\<lambda>n. (n, Some g)) (monitor_notes (map Some ss @ [None])))
      = map (\<lambda>_. - g) (filter (\<lambda>s. trim_space s \<in> {''interrupt'', ''del''}) ss)
    \<and> (\<forall>k \<in> set (relay_notes ns). k < 0)"
proof
  show "relay_notes (map (\<lambda>n. (n, Some g)) (monitor_notes (map Some ss @ [None])))
      = map (\<lambda>_. - g) (filter (\<lambda>s. trim_space s \<in> {''interrupt'', ''del''}) ss)"
    using assms by (induction ss) auto
  show "\<forall>k \<in> set (relay_notes ns). k < 0"
    by (induction ns rule: relay_notes.induct) (auto split: option.split)
qed

lemma notes_become_signals_example:
  "relay_notes (map (\<lambda>n. (n, Some 42)) (monitor_notes [Some ''del'', Some ''hangup'', None])) = [- 42]"
proof -
  have "trim_space ''del'' = ''del''" "trim_space ''hangup'' = ''hangup''"
    by (rule trim_space_id; simp add: untrimmed_def space_runes_def has_prefix_def char_of_def)+
  then show ?thesis
    using notes_become_signals [of "[''del'', ''hangup'']" 42 "[]"] by simp
qed

end
