(* ===== verification/Session.thy ===== *)
theory Session
  imports Auth_Proxy Shell
begin

text \<open>
  A session of \<open>rcpud\<close>: \<open>handleRcpu\<close> of \<open>cmd/rcpud/main.go\<close> from the accepted connection to the
  end of the shell, with \<open>launchShell\<close>, \<open>runShellPty\<close>, \<open>runShellDirect\<close>, \<open>openPty\<close>,
  \<open>startUnix9PServer\<close> and \<open>mountFUSE\<close>. The result is the list of the effects in order, deferred
  calls included, and how the session ended.

  What the host, the TLS upgrade and the 9P library answer is the record \<open>world\<close>; \<open>w_tls\<close> takes
  the secret and the raw connection to the decrypted one, and may panic (\<open>Tls_Psk\<close> models the
  upgrade itself, \<open>Rcpud\<close> puts the two together). The negotiation, the authentication,
  the script and the command of the shell are the functions of the other theories.
\<close>

record world =
  w_hostname :: string
  w_factotum :: "string + fac_reply list"
  w_tls :: "string \<Rightarrow> char conn \<Rightarrow> (string + char conn) go"
  w_stat :: "string \<Rightarrow> bool"
  w_client :: "string option"         \<comment> \<open>error of \<open>NewClient\<close>\<close>
  w_drawsrv :: string                 \<comment> \<open>the option \<open>-drawsrv\<close>\<close>
  w_fb_dumb :: bool                   \<comment> \<open>\<open>openFBDumb\<close> opens and maps the DRM device\<close>
  w_fb0 :: bool                       \<comment> \<open>\<open>openFB0\<close> opens and maps \<open>/dev/fb0\<close>\<close>
  w_cons :: bool                      \<comment> \<open>\<open>dev/cons\<close> can be stat'ed and opened\<close>
  w_listen :: "string option"
  w_fuse :: "string option"
  w_dials :: nat                      \<comment> \<open>connections to the local 9P server while it listens\<close>
  w_sock_dir :: string                \<comment> \<open>fresh directory of \<open>MkdirTemp\<close>, whose error is ignored\<close>
  w_ns_dir :: string
  w_environ :: "string list"
  w_ptmx :: "string option"           \<comment> \<open>error of opening \<open>/dev/ptmx\<close>\<close>
  w_ptn :: "string + nat"             \<comment> \<open>\<open>TIOCGPTN\<close>\<close>
  w_slave :: "bool list"              \<comment> \<open>the attempts to open the slave\<close>
  w_cons_open :: bool                 \<comment> \<open>the console through the mounted name space\<close>
  w_start :: bool                     \<comment> \<open>the shell can be started\<close>

datatype ev =
    CloseConn | TlsUp string | Start9P string | OpenFb string | AddMount string string
  | MkDir string | Listen string | AcceptLocal | CloseListener | RemoveAll string
  | StartFuse string string | KillFuse
  | OpenPtm | ClosePtm | WinSize nat nat | OpenSlave string bool | CloseSlave | Sleep
  | OpenCons string | CloseCons | StartShell "string shell_cmd" | ConsToPty | PtyToCons bool
  | RelayNotes | WaitShell

datatype outcome =
    NoChoice goerr | NoAuth auth_error | NoTls string | NoEnv goerr | NoClient string
  | NoServer string | NoFuse string | Ended | Crashed

section \<open>The shell\<close>

text \<open>\<open>openPty\<close>: the name of the slave.\<close>

definition open_pty :: "world \<Rightarrow> string option \<times> ev list" where
  "open_pty w =
     (case w_ptmx w of
        Some e \<Rightarrow> (None, [])
      | None \<Rightarrow>
          (case w_ptn w of
             Inl e \<Rightarrow> (None, [OpenPtm, ClosePtm])
           | Inr n \<Rightarrow> (Some (''/dev/pts/'' @ itoa_nat n), [OpenPtm])))"

text \<open>Up to five attempts, with a pause after each failed one; an attempt the world does not
  mention fails.\<close>

fun try_slave :: "nat \<Rightarrow> bool list \<Rightarrow> string \<Rightarrow> bool \<times> ev list" where
  "try_slave 0 rs name = (False, [])"
| "try_slave (Suc n) (True # rs) name = (True, [OpenSlave name True])"
| "try_slave (Suc n) (_ # rs) name =
     (let (ok, es) = try_slave n rs name in (ok, OpenSlave name False # Sleep # es))"
| "try_slave (Suc n) [] name =
     (let (ok, es) = try_slave n [] name in (ok, OpenSlave name False # Sleep # es))"

text \<open>\<open>no_strip\<close> is the flag \<open>stripANSI\<close>, which the option \<open>-no-strip\<close> sets.\<close>

definition run_shell_pty :: "world \<Rightarrow> bool \<Rightarrow> string shell_cmd \<Rightarrow> ev list" where
  "run_shell_pty w no_strip cmd =
     (if \<not> w_start w then []
      else [StartShell cmd] @ (if w_cons w then [ConsToPty, PtyToCons (\<not> no_strip)] else [])
           @ [RelayNotes, WaitShell])"

definition run_shell_direct ::
    "world \<Rightarrow> string \<Rightarrow> (string \<Rightarrow> string shell_cmd) \<Rightarrow> ev list" where
  "run_shell_direct w ns_dir mk_cmd =
     (let cons_path = path_join [ns_dir, ''dev/cons''] in
      if \<not> w_cons_open w then []
      else [OpenCons cons_path] @ (if w_start w then [StartShell (mk_cmd cons_path), WaitShell] else [])
           @ [CloseCons])"

text \<open>A failed slave closes the master at once, and the deferred \<open>Close\<close> closes it again.\<close>

definition launch_shell ::
    "world \<Rightarrow> bool \<Rightarrow> (string \<Rightarrow> string \<Rightarrow> string shell_cmd) \<Rightarrow> string \<Rightarrow> ev list" where
  "launch_shell w no_strip mk_cmd ns_dir =
     (case open_pty w of
        (None, es) \<Rightarrow> es @ run_shell_direct w ns_dir (\<lambda>f. mk_cmd f [])
      | (Some name, es) \<Rightarrow>
          (case try_slave 5 (w_slave w) name of
             (True, ts) \<Rightarrow>
               es @ [WinSize 24 80] @ ts @ run_shell_pty w no_strip (mk_cmd name ''plan9'')
               @ [CloseSlave, ClosePtm]
           | (False, ts) \<Rightarrow>
               es @ [WinSize 24 80] @ ts @ [ClosePtm]
               @ run_shell_direct w ns_dir (\<lambda>f. mk_cmd f []) @ [ClosePtm]))"

section \<open>The session\<close>

definition key_spec :: "string \<Rightarrow> string" where
  "key_spec domain = ''role=server proto=dp9ik dom='' @ domain"

text \<open>\<open>startUnix9PServer\<close> and \<open>mountFUSE\<close> make their directory first, and return no path for it
  when what follows fails.\<close>

definition start_server :: "world \<Rightarrow> (string + string) \<times> ev list" where
  "start_server w =
     (let sock_path = path_join [w_sock_dir w, ''o9.sock''] in
      case w_listen w of
        Some e \<Rightarrow> (Inl e, [MkDir (w_sock_dir w)])
      | None \<Rightarrow> (Inr sock_path, [MkDir (w_sock_dir w), Listen sock_path]))"

definition mount_fuse :: "world \<Rightarrow> string \<Rightarrow> (string + string) \<times> ev list" where
  "mount_fuse w sock_path =
     (case w_fuse w of
        Some e \<Rightarrow> (Inl e, [MkDir (w_ns_dir w)])
      | None \<Rightarrow>
          (Inr (w_ns_dir w), [MkDir (w_ns_dir w), StartFuse (''unix!'' @ sock_path) (w_ns_dir w)]))"

text \<open>The goroutine that \<open>startUnix9PServer\<close> leaves behind accepts whoever connects to the socket until
  the listener is closed, first of all the FUSE process, and serves each connection in a goroutine of
  its own; no call closes an accepted connection.\<close>

definition accept_local :: "world \<Rightarrow> ev list" where
  "accept_local w = replicate (w_dials w) AcceptLocal"

text \<open>The framebuffer that \<open>setupNamespace\<close> opens for the session, when a draw server is configured:
  the DRM device, else \<open>/dev/fb0\<close>. An opener that fails leaves nothing open (\<open>Framebuffer\<close>).\<close>

definition open_session_fb :: "world \<Rightarrow> ev list" where
  "open_session_fb w =
     (if w_drawsrv w = [] then []
      else if w_fb_dumb w then [OpenFb ''/dev/dri/renderD129'']
      else if w_fb0 w then [OpenFb ''/dev/fb0''] else [])"

text \<open>From the 9P client on, for an authenticated user.\<close>

definition serve_user ::
    "world \<Rightarrow> bool \<Rightarrow> mount_spec list \<Rightarrow> string \<Rightarrow> client_env \<Rightarrow> ev list \<times> outcome" where
  "serve_user w no_strip mounts user cenv =
     (case w_client w of
        Some e \<Rightarrow> ([], NoClient e)
      | None \<Rightarrow>
          let hname = (if w_hostname w = [] then ''unknown'' else w_hostname w);
              es1 = Start9P user # open_session_fb w @ map (\<lambda>m. AddMount (ms_path m) (ms_name m)) mounts
          in case start_server w of
               (Inl e, es2) \<Rightarrow> (es1 @ es2, NoServer e)
             | (Inr sock_path, es2) \<Rightarrow>
                 let close_server = [RemoveAll (path_dir sock_path), CloseListener]
                 in case mount_fuse w sock_path of
                      (Inl e, es3) \<Rightarrow> (es1 @ es2 @ es3 @ accept_local w @ close_server, NoFuse e)
                    | (Inr ns_dir, es3) \<Rightarrow>
                        (es1 @ es2 @ es3 @ accept_local w
                         @ launch_shell w no_strip
                             (\<lambda>f term. session_cmd (w_environ w) user hname ns_dir f cenv term) ns_dir
                         @ [KillFuse, RemoveAll ns_dir] @ close_server, Ended))"

definition handle_rcpu ::
    "world \<Rightarrow> bool \<Rightarrow> string \<Rightarrow> mount_spec list \<Rightarrow> char conn \<Rightarrow> ev list \<times> outcome" where
  "handle_rcpu w no_strip domain mounts c0 =
     (let (es, out) =
        (case negotiate_protocol domain c0 of
           (Inl e, c1) \<Rightarrow> ([], NoChoice e)
         | (Inr choice, c1) \<Rightarrow>
             (case proxy_auth (key_spec domain) (w_factotum w) c1 of
                (Panic, log, c2) \<Rightarrow> ([], Crashed)
              | (Ret (Inl e), log, c2) \<Rightarrow> ([], NoAuth e)
              | (Ret (Inr ai), log, c2) \<Rightarrow>
                  (case w_tls w (secret ai) c2 of
                     Panic \<Rightarrow> ([], Crashed)
                   | Ret (Inl e) \<Rightarrow> ([], NoTls e)
                   | Ret (Inr c3) \<Rightarrow>
                       (case read_client_env (w_stat w) c3 of
                          (Panic, r) \<Rightarrow> ([TlsUp (secret ai)], Crashed)
                        | (Ret (Inl e), r) \<Rightarrow> ([TlsUp (secret ai)], NoEnv e)
                        | (Ret (Inr cenv), r) \<Rightarrow>
                            (case serve_user w no_strip mounts (cuid ai) cenv of
                               (es, out) \<Rightarrow> (TlsUp (secret ai) # es, out))))))
      in (es @ [CloseConn], out))"

lemmas session_defs = serve_user_def open_session_fb_def start_server_def mount_fuse_def launch_shell_def
  run_shell_pty_def run_shell_direct_def open_pty_def Let_def


section \<open>What a session can do\<close>

lemma open_session_fb_events:
  "e \<in> set (open_session_fb w) \<Longrightarrow> e = OpenFb ''/dev/dri/renderD129'' \<or> e = OpenFb ''/dev/fb0''"
  by (auto simp: open_session_fb_def split: if_splits)

lemma accept_local_events: "e \<in> set (accept_local w) \<Longrightarrow> e = AcceptLocal"
  by (auto simp: accept_local_def)

lemma try_slave_events: "try_slave n rs name = (ok, es) \<Longrightarrow>
    set es \<subseteq> {OpenSlave name True, OpenSlave name False, Sleep}"
  by (induction n rs name arbitrary: ok es rule: try_slave.induct) (auto split: prod.splits)

lemma open_pty_events: "open_pty w = (r, es) \<Longrightarrow> set es \<subseteq> {OpenPtm, ClosePtm}"
  by (auto simp: open_pty_def split: option.splits sum.splits)

lemma launch_shell_cases:
  obtains es where "open_pty w = (None, es)"
    "launch_shell w ns mk dir = es @ run_shell_direct w dir (\<lambda>f. mk f [])"
  | name es ts where "open_pty w = (Some name, es)" "try_slave 5 (w_slave w) name = (True, ts)"
    "launch_shell w ns mk dir = es @ [WinSize 24 80] @ ts @ run_shell_pty w ns (mk name ''plan9'')
      @ [CloseSlave, ClosePtm]"
  | name es ts where "open_pty w = (Some name, es)" "try_slave 5 (w_slave w) name = (False, ts)"
    "launch_shell w ns mk dir = es @ [WinSize 24 80] @ ts @ [ClosePtm]
      @ run_shell_direct w dir (\<lambda>f. mk f []) @ [ClosePtm]"
proof (cases "open_pty w")
  case (Pair r es)
  show ?thesis
  proof (cases r)
    case None
    then show ?thesis using Pair that(1) by (simp add: launch_shell_def)
  next
    case (Some name)
    obtain ok ts where t: "try_slave 5 (w_slave w) name = (ok, ts)" by fastforce
    then show ?thesis
      using Pair Some that(2,3) by (cases ok) (simp_all add: launch_shell_def)
  qed
qed

lemma direct_shell_cmd:
  "StartShell cmd \<in> set (run_shell_direct w dir mk) \<Longrightarrow> \<exists>f. cmd = mk f"
  by (auto simp: run_shell_direct_def Let_def split: if_splits)

lemma pty_shell_cmd: "StartShell cmd \<in> set (run_shell_pty w ns c) \<Longrightarrow> cmd = c"
  by (auto simp: run_shell_pty_def split: if_splits)

lemma launch_shell_cmd:
  assumes "StartShell cmd \<in> set (launch_shell w ns mk dir)"
  shows "\<exists>f term. cmd = mk f term"
proof (cases rule: launch_shell_cases [of w ns mk dir])
  case (1 es)
  then have "StartShell cmd \<in> set (run_shell_direct w dir (\<lambda>f. mk f []))"
    using assms open_pty_events [of w] by auto
  then show ?thesis using direct_shell_cmd by blast
next
  case (2 name es ts)
  then have "StartShell cmd \<in> set (run_shell_pty w ns (mk name ''plan9''))"
    using assms open_pty_events [of w] try_slave_events [of 5 "w_slave w"] by fastforce
  then show ?thesis using pty_shell_cmd by blast
next
  case (3 name es ts)
  then have "StartShell cmd \<in> set (run_shell_direct w dir (\<lambda>f. mk f []))"
    using assms open_pty_events [of w] try_slave_events [of 5 "w_slave w"] by fastforce
  then show ?thesis using direct_shell_cmd by blast
qed

lemma serve_user_cases:
  obtains e where "w_client w = Some e" "serve_user w ns mounts user cenv = ([], NoClient e)"
  | e where "w_client w = None" "w_listen w = Some e"
    "serve_user w ns mounts user cenv =
      (Start9P user # open_session_fb w @ map (\<lambda>m. AddMount (ms_path m) (ms_name m)) mounts
       @ [MkDir (w_sock_dir w)], NoServer e)"
  | e sp where "w_client w = None" "w_listen w = None" "w_fuse w = Some e"
    "sp = path_join [w_sock_dir w, ''o9.sock'']"
    "serve_user w ns mounts user cenv =
      (Start9P user # open_session_fb w @ map (\<lambda>m. AddMount (ms_path m) (ms_name m)) mounts
       @ [MkDir (w_sock_dir w), Listen sp, MkDir (w_ns_dir w)]
       @ accept_local w @ [RemoveAll (path_dir sp), CloseListener], NoFuse e)"
  | sp hname where "w_client w = None" "w_listen w = None" "w_fuse w = None"
    "sp = path_join [w_sock_dir w, ''o9.sock'']"
    "serve_user w ns mounts user cenv =
      (Start9P user # open_session_fb w @ map (\<lambda>m. AddMount (ms_path m) (ms_name m)) mounts
       @ [MkDir (w_sock_dir w), Listen sp, MkDir (w_ns_dir w), StartFuse (''unix!'' @ sp) (w_ns_dir w)]
       @ accept_local w @ launch_shell w ns
           (\<lambda>f term. session_cmd (w_environ w) user hname (w_ns_dir w) f cenv term) (w_ns_dir w)
       @ [KillFuse, RemoveAll (w_ns_dir w), RemoveAll (path_dir sp), CloseListener], Ended)"
proof (cases "w_client w")
  case (Some e)
  then show ?thesis using that(1) by (simp add: serve_user_def)
next
  case None
  show ?thesis
  proof (cases "w_listen w")
    case (Some e)
    then show ?thesis using None that(2) by (simp add: serve_user_def start_server_def Let_def)
  next
    case l: None
    show ?thesis
    proof (cases "w_fuse w")
      case (Some e)
      then show ?thesis
        using None l that(3) by (simp add: serve_user_def start_server_def mount_fuse_def Let_def)
    next
      case f: None
      show ?thesis
        by (rule that(4) [OF None l f refl])
          (simp add: None l f serve_user_def start_server_def mount_fuse_def Let_def)
    qed
  qed
qed

lemma serve_user_cmd:
  assumes "serve_user w ns mounts user cenv = (es, out)" and "StartShell cmd \<in> set es"
  shows "\<exists>hname f term. cmd = session_cmd (w_environ w) user hname (w_ns_dir w) f cenv term
    \<and> out = Ended \<and> es \<noteq> [] \<and> hd es = Start9P user"
proof (cases rule: serve_user_cases [of w ns mounts user cenv])
  case (4 sp hname)
  then have "StartShell cmd \<in> set (launch_shell w ns
      (\<lambda>f term. session_cmd (w_environ w) user hname (w_ns_dir w) f cenv term) (w_ns_dir w))"
    using assms open_session_fb_events [of _ w] accept_local_events [of _ w] by auto
  from launch_shell_cmd [OF this] obtain f tm
    where "cmd = session_cmd (w_environ w) user hname (w_ns_dir w) f cenv tm" by blast
  moreover have "out = Ended \<and> es \<noteq> [] \<and> hd es = Start9P user" using 4 assms by auto
  ultimately show ?thesis by blast
qed (use assms open_session_fb_events [of _ w] in \<open>auto dest: accept_local_events\<close>)

lemma handle_rcpu_user:
  assumes "handle_rcpu w ns domain mounts c0 = (es, out)" and "StartShell cmd \<in> set es"
  obtains choice c1 ai log c2 c3 cenv r es' where
    "negotiate_protocol domain c0 = (Inr choice, c1)"
    "proxy_auth (key_spec domain) (w_factotum w) c1 = (Ret (Inr ai), log, c2)"
    "w_tls w (secret ai) c2 = Ret (Inr c3)" "read_client_env (w_stat w) c3 = (Ret (Inr cenv), r)"
    "serve_user w ns mounts (cuid ai) cenv = (es', out)" "StartShell cmd \<in> set es'"
    "es = TlsUp (secret ai) # es' @ [CloseConn]"
  using assms
  by (auto simp: handle_rcpu_def Let_def split: prod.splits sum.splits go.splits)

text \<open>Claim C1. No shell without authentication and encryption: when a session starts a shell, the
  client's choice was read, factotum ended the conversation with \<open>done\<close> and an \<open>authinfo\<close> reply
  that decodes to an identity, the TLS layer came up with the secret of that identity, and the
  shell is the one the client's script names, with the variables \<open>USER\<close> and \<open>NAMESPACE\<close> of its
  environment naming that identity's user and the session's own name space; the 9P client was
  started for the same user, after TLS. The process itself gets no credential of its own: whoever
  the client is, the shell runs with the user and group of the daemon.\<close>

theorem session_shell_authentic:
  assumes "handle_rcpu w ns domain mounts c0 = (es, out)" and "StartShell cmd \<in> set es"
  shows "\<exists>choice c1 ai log c2 c3 cenv r rs pre d a post es'.
    negotiate_protocol domain c0 = (Inr choice, c1)
    \<and> w_factotum w = Inr rs \<and> rs = pre @ Reply d # Reply a # post
    \<and> reply_verb d = ''done'' \<and> reply_verb a = ''ok'' \<and> conv_m2ai (reply_arg a) = Ret (Some ai)
    \<and> proxy_auth (key_spec domain) (w_factotum w) c1 = (Ret (Inr ai), log, c2)
    \<and> w_tls w (secret ai) c2 = Ret (Inr c3) \<and> read_client_env (w_stat w) c3 = (Ret (Inr cenv), r)
    \<and> es = TlsUp (secret ai) # Start9P (cuid ai) # es'
    \<and> exec_env (sc_env cmd) ''USER'' = Some (cuid ai)
    \<and> exec_env (sc_env cmd) ''NAMESPACE'' = Some (w_ns_dir w)
    \<and> sc_path cmd = resolve_shell cenv \<and> sc_cred cmd = None"
proof -
  obtain choice c1 ai log c2 c3 cenv r es' where
    n: "negotiate_protocol domain c0 = (Inr choice, c1)"
    and p: "proxy_auth (key_spec domain) (w_factotum w) c1 = (Ret (Inr ai), log, c2)"
    and t: "w_tls w (secret ai) c2 = Ret (Inr c3)" "read_client_env (w_stat w) c3 = (Ret (Inr cenv), r)"
    and s: "serve_user w ns mounts (cuid ai) cenv = (es', out)" "StartShell cmd \<in> set es'"
    and e: "es = TlsUp (secret ai) # es' @ [CloseConn]"
    using handle_rcpu_user [OF assms] by blast
  obtain rs where rs: "w_factotum w = Inr rs"
    using p by (cases "w_factotum w") (auto simp: proxy_auth_def)
  obtain pre d a post where "rs = pre @ Reply d # Reply a # post" "reply_verb d = ''done''"
    "reply_verb a = ''ok''" "conv_m2ai (reply_arg a) = Ret (Some ai)"
    using proxy_auth_identity [of "key_spec domain" rs c1 ai log c2] p rs by auto
  moreover obtain hname f tm where
    c: "cmd = session_cmd (w_environ w) (cuid ai) hname (w_ns_dir w) f cenv tm" "hd es' = Start9P (cuid ai)"
    using serve_user_cmd [OF s] by blast
  moreover obtain es'' where "es' = Start9P (cuid ai) # es''"
    using c(2) s(2) by (cases es') auto
  moreover have u: "exec_env (sc_env cmd) ''USER'' = Some (cuid ai)"
    "exec_env (sc_env cmd) ''NAMESPACE'' = Some (w_ns_dir w)" "sc_path cmd = resolve_shell cenv" "sc_cred cmd = None"
    by (simp_all add: c(1) session_cmd_env session_cmd_fields)
  ultimately have "negotiate_protocol domain c0 = (Inr choice, c1)
    \<and> w_factotum w = Inr rs \<and> rs = pre @ Reply d # Reply a # post
    \<and> reply_verb d = ''done'' \<and> reply_verb a = ''ok'' \<and> conv_m2ai (reply_arg a) = Ret (Some ai)
    \<and> proxy_auth (key_spec domain) (w_factotum w) c1 = (Ret (Inr ai), log, c2)
    \<and> w_tls w (secret ai) c2 = Ret (Inr c3) \<and> read_client_env (w_stat w) c3 = (Ret (Inr cenv), r)
    \<and> es = TlsUp (secret ai) # Start9P (cuid ai) # es'' @ [CloseConn]
    \<and> exec_env (sc_env cmd) ''USER'' = Some (cuid ai)
    \<and> exec_env (sc_env cmd) ''NAMESPACE'' = Some (w_ns_dir w)
    \<and> sc_path cmd = resolve_shell cenv \<and> sc_cred cmd = None"
    using n p t e rs by simp
  then show ?thesis by blast
qed

section \<open>A session, run\<close>

definition demo_world :: world where
  "demo_world = \<lparr>w_hostname = ''host'', w_factotum = Inr [Reply ''ok'', Reply ''ok chal'',
      Reply ''done'', Reply (''ok '' @ enc_auth_info demo_info)],
    w_tls = (\<lambda>s c. Ret (Inr (demo_conn [''0'' @ ''\<newline>'']))), w_stat = (\<lambda>_. True), w_client = None,
    w_drawsrv = [], w_fb_dumb = False, w_fb0 = False, w_cons = True, w_listen = None, w_fuse = None, w_dials = 1,
    w_sock_dir = ''/tmp/s'', w_ns_dir = ''/tmp/n'',
    w_environ = [''PATH=/bin''], w_ptmx = None, w_ptn = Inr 3, w_slave = [False, True],
    w_cons_open = True, w_start = True\<rparr>"

definition demo_client :: "char conn" where
  "demo_client = demo_conn [''dp9ik@d'' @ [nul]]"

definition demo_shell :: "string shell_cmd" where
  "demo_shell = session_cmd [''PATH=/bin''] ''glenda'' ''host'' ''/tmp/n'' ''/dev/pts/3'' Map.empty
    ''plan9''"

definition demo_events :: "ev list" where
  "demo_events =
     [TlsUp ''key'', Start9P ''glenda'', MkDir ''/tmp/s'', Listen ''/tmp/s/o9.sock'', MkDir ''/tmp/n'',
      StartFuse ''unix!/tmp/s/o9.sock'' ''/tmp/n'', AcceptLocal, OpenPtm, WinSize 24 80,
      OpenSlave ''/dev/pts/3'' False, Sleep, OpenSlave ''/dev/pts/3'' True, StartShell demo_shell,
      ConsToPty, PtyToCons True, RelayNotes, WaitShell, CloseSlave, ClosePtm, KillFuse,
      RemoveAll ''/tmp/n'', RemoveAll ''/tmp/s'', CloseListener, CloseConn]"

lemma demo_auth:
  "proxy_auth (key_spec ''d'') (w_factotum demo_world)
     \<lparr>inp = ss, rerr = EOF, outp = ys, wleft = None\<rparr> =
   (Ret (Inr demo_info), [''start role=server proto=dp9ik dom=d'', ''read '', ''read '', ''authinfo ''],
    \<lparr>inp = ss, rerr = EOF, outp = ys @ [''chal''], wleft = None\<rparr>)"
proof -
  have "conv_m2ai (enc_auth_info demo_info) = Ret (Some demo_info)" by code_simp
  moreover have "length (enc_auth_info demo_info) = 23"
    by (simp add: enc_auth_info_def enc_field_def demo_info_def)
  ultimately show ?thesis
    by (simp add: proxy_auth_def fauth_proxy_def run_simps demo_world_def key_spec_def
        proxy_loop.simps)
qed

lemma demo_env: "\<exists>r. read_client_env (\<lambda>_. True) (demo_conn [''0'' @ ''\<newline>'']) = (Ret (Inr Map.empty), r)"
proof -
  let ?c = "demo_conn [''0'' @ ''\<newline>'']"
  have p: "pending ?c = itoa_nat 0 @ ''\<newline>'' @ []"
    by (simp add: demo_conn_def pending_def itoa_nat.simps digit_chars)
  obtain b c' where "read_string (CHR ''\<newline>'') [] [] ?c = (Inr (itoa_nat 0 @ ''\<newline>''), (b, c'))"
    and "sscanf_d (itoa_nat 0 @ ''\<newline>'') = Some 0"
    using read_len_line [OF p] by auto
  then show ?thesis by (simp add: read_client_env_def check_dir_def)
qed

lemma demo_negotiate:
  "\<exists>ss ys. negotiate_protocol ''d'' demo_client
    = (Inr ''dp9ik@d'', \<lparr>inp = ss, rerr = EOF, outp = ys, wleft = None\<rparr>)"
proof -
  let ?c1 = "snd (conn_write (offer ''d'') demo_client)"
  have "pending ?c1 = ''dp9ik@d'' @ nul # []" "nul \<notin> set ''dp9ik@d''"
    by (simp_all add: demo_client_def demo_conn_def pending_def conn_write_def nul_def)
  from read_choice_spec [OF this, of "[]"] obtain c' where
    "read_choice [] ?c1 = (Inr ''dp9ik@d'', c')" "rerr c' = rerr ?c1" "wleft c' = wleft ?c1" by auto
  then show ?thesis
    by (cases c') (auto simp: negotiate_protocol_def Let_def conn_write_def demo_client_def
        demo_conn_def)
qed

lemma demo_serve:
  "serve_user (demo_world\<lparr>w_tls := f\<rparr>) False [] ''glenda'' Map.empty = (tl (butlast demo_events), Ended)"
proof -
  have "path_join [''/tmp/s'', ''o9.sock''] = ''/tmp/s/o9.sock''" by code_simp
  moreover have "path_dir ''/tmp/s/o9.sock'' = ''/tmp/s''" by code_simp
  moreover have "itoa_nat 3 = ''3''" by (simp add: itoa_nat.simps digit_chars)
  ultimately show ?thesis
    by (simp add: serve_user_def start_server_def mount_fuse_def launch_shell_def open_pty_def
        run_shell_pty_def open_session_fb_def accept_local_def demo_world_def demo_events_def demo_shell_def numeral_eq_Suc Let_def)
qed

lemma demo_session_tls:
  assumes "\<And>c. f ''key'' c = Ret (Inr (demo_conn [''0'' @ ''\<newline>'']))"
  shows "handle_rcpu (demo_world\<lparr>w_tls := f\<rparr>) False ''d'' [] demo_client = (demo_events, Ended)"
proof -
  obtain ss ys where n: "negotiate_protocol ''d'' demo_client
      = (Inr ''dp9ik@d'', \<lparr>inp = ss, rerr = EOF, outp = ys, wleft = None\<rparr>)"
    using demo_negotiate by blast
  obtain r where e: "read_client_env (\<lambda>_. True) (demo_conn [''0'' @ ''\<newline>'']) = (Ret (Inr Map.empty), r)"
    using demo_env by blast
  have w: "w_stat (demo_world\<lparr>w_tls := f\<rparr>) = (\<lambda>_. True)" by (simp add: demo_world_def)
  have "secret demo_info = ''key''" "cuid demo_info = ''glenda''" by (simp_all add: demo_info_def)
  then show ?thesis
    by (simp add: handle_rcpu_def n demo_auth assms [simplified] w [simplified] e [simplified] demo_serve) (simp add: demo_events_def)
qed

lemma demo_session:
  "handle_rcpu demo_world False ''d'' [] demo_client = (demo_events, Ended)"
proof -
  have "w_tls demo_world ''key'' c = Ret (Inr (demo_conn [''0'' @ ''\<newline>'']))" for c
    by (simp add: demo_world_def)
  from demo_session_tls [of "w_tls demo_world", OF this] show ?thesis by simp
qed

lemma demo_shell_started: "StartShell demo_shell \<in> set demo_events"
  by (simp add: demo_events_def)

section \<open>What a session holds\<close>

text \<open>The ledger of a session: what an effect takes from the host and what it gives back. Closing
  what is closed already changes nothing. A framebuffer is a descriptor and a mapping. A process
  that was started and killed but not waited for stays as an entry of the process table (a
  zombie); \<open>Cmd.Wait\<close> takes the shell's away.\<close>

datatype res =
    Conn | Tls | Client9P | Framebuf string | Socket | LocalConn | Dir string | Fuse | Zombie | Pty | Slave
  | Cons | Proc

fun hold :: "ev \<Rightarrow> res set \<Rightarrow> res set" where
  "hold CloseConn S = S - {Conn}"
| "hold (TlsUp s) S = insert Tls S"
| "hold (Start9P u) S = insert Client9P S"
| "hold (OpenFb dev) S = insert (Framebuf dev) S"
| "hold (MkDir d) S = insert (Dir d) S"
| "hold (RemoveAll d) S = S - {Dir d}"
| "hold (Listen p) S = insert Socket S"
| "hold AcceptLocal S = insert LocalConn S"
| "hold CloseListener S = S - {Socket}"
| "hold (StartFuse a d) S = insert Fuse S"
| "hold KillFuse S = (if Fuse \<in> S then insert Zombie (S - {Fuse}) else S)"
| "hold OpenPtm S = insert Pty S"
| "hold ClosePtm S = S - {Pty}"
| "hold (OpenSlave n ok) S = (if ok then insert Slave S else S)"
| "hold CloseSlave S = S - {Slave}"
| "hold (OpenCons p) S = insert Cons S"
| "hold CloseCons S = S - {Cons}"
| "hold (StartShell c) S = insert Proc S"
| "hold WaitShell S = S - {Proc}"
| "hold _ S = S"

definition held :: "ev list \<Rightarrow> res set" where
  "held es = fold hold es {Conn}"

lemma hold_mounts: "fold hold (map (\<lambda>m. AddMount (ms_path m) (ms_name m)) ms) S = S"
  by (induction ms) auto

lemma hold_tries: "try_slave n rs name = (ok, es) \<Longrightarrow>
    fold hold es S = (if ok then insert Slave S else S)"
  by (induction n rs name arbitrary: ok es S rule: try_slave.induct) (auto split: prod.splits)

lemma hold_direct: "Proc \<notin> S \<Longrightarrow> Cons \<notin> S \<Longrightarrow> fold hold (run_shell_direct w d mk) S = S"
  by (auto simp: run_shell_direct_def Let_def)

lemma hold_pty: "Proc \<notin> S \<Longrightarrow> fold hold (run_shell_pty w ns c) S = S"
  by (auto simp: run_shell_pty_def)

lemma hold_open_pty: "open_pty w = (r, es) \<Longrightarrow> Pty \<notin> S \<Longrightarrow>
    fold hold es S = (if r = None then S else insert Pty S)"
  by (auto simp: open_pty_def split: option.splits sum.splits)

lemma hold_launch:
  assumes "{Proc, Cons, Slave, Pty} \<inter> S = {}"
  shows "fold hold (launch_shell w ns mk d) S = S"
proof (cases rule: launch_shell_cases [of w ns mk d])
  case (1 es)
  then show ?thesis using assms by (simp add: hold_open_pty hold_direct)
next
  case (2 name es ts)
  then show ?thesis using assms by (auto simp: hold_open_pty hold_tries hold_pty)
next
  case (3 name es ts)
  then show ?thesis using assms by (auto simp: hold_open_pty hold_tries hold_direct)
qed


lemma sock_dir_back:
  assumes "list_all plain_name ws" and "ws \<noteq> []" and "d = abs_path ws"
  shows "path_dir (path_join [d, ''o9.sock'']) = d"
proof -
  have "plain_name ''o9.sock''" by (simp add: plain_name_def)
  then show ?thesis using assms by (simp add: path_join_abs path_dir_abs)
qed

text \<open>What a session still holds when it is over, by how it ended: nothing of what comes behind the
  TLS upgrade when it ended before the 9P client; else the client, the framebuffer, the
  accepted connections, and what is left of the step that failed, or of the FUSE process.\<close>

definition framebuf_held :: "world \<Rightarrow> res set" where
  "framebuf_held w =
     (if w_drawsrv w = [] then {}
      else if w_fb_dumb w then {Framebuf ''/dev/dri/renderD129''}
      else if w_fb0 w then {Framebuf ''/dev/fb0''} else {})"

definition local_held :: "world \<Rightarrow> res set" where
  "local_held w = (if w_dials w = 0 then {} else {LocalConn})"

fun left_over :: "world \<Rightarrow> outcome \<Rightarrow> res set" where
  "left_over w (NoServer e) = {Client9P, Dir (w_sock_dir w)} \<union> framebuf_held w"
| "left_over w (NoFuse e) = {Client9P, Dir (w_ns_dir w)} \<union> framebuf_held w \<union> local_held w"
| "left_over w Ended = {Client9P, Zombie} \<union> framebuf_held w \<union> local_held w"
| "left_over w _ = {}"

lemma hold_fb: "fold hold (open_session_fb w) S = S \<union> framebuf_held w"
  by (auto simp: open_session_fb_def framebuf_held_def)

lemma hold_local: "fold hold (accept_local w) S = S \<union> local_held w"
proof -
  have "fold hold (replicate n AcceptLocal) S = S \<union> (if n = 0 then {} else {LocalConn})" for n
    by (induction n arbitrary: S) auto
  then show ?thesis by (simp add: accept_local_def local_held_def)
qed

lemma local_held_only: "local_held w \<subseteq> {LocalConn}"
  by (simp add: local_held_def)

lemma framebuf_held_only: "framebuf_held w \<subseteq> range Framebuf"
  by (auto simp: framebuf_held_def)

lemma serve_user_held:
  assumes "serve_user w ns mounts user cenv = (es, out)"
    and "path_dir (path_join [w_sock_dir w, ''o9.sock'']) = w_sock_dir w"
    and "w_ns_dir w \<noteq> w_sock_dir w"
  shows "fold hold es {Tls, Conn} = {Tls, Conn} \<union> left_over w out"
proof (cases rule: serve_user_cases [of w ns mounts user cenv])
  case (4 sp hname)
  let ?S = "insert Fuse (insert (Dir (w_ns_dir w)) (insert Socket (insert (Dir (w_sock_dir w))
      (insert Client9P {Tls, Conn} \<union> framebuf_held w)))) \<union> local_held w"
  have "{Proc, Cons, Slave, Pty} \<inter> ?S = {}" using framebuf_held_only [of w] local_held_only [of w] by auto
  then have "fold hold (launch_shell w ns mk d) ?S = ?S" for mk d by (rule hold_launch)
  then show ?thesis using 4 assms framebuf_held_only [of w] local_held_only [of w]
    by (auto simp: hold_mounts hold_fb hold_local)
next
  case (3 e sp)
  then show ?thesis using assms framebuf_held_only [of w] local_held_only [of w]
    by (auto simp: hold_mounts hold_fb hold_local)
qed (use assms framebuf_held_only [of w] in \<open>auto simp: hold_mounts hold_fb\<close>)

lemma handle_rcpu_cases:
  assumes "handle_rcpu w ns domain mounts c0 = (es, out)"
  obtains "es = [CloseConn] \<or> (\<exists>s. es = [TlsUp s, CloseConn])" "left_over w out = {}" "out \<noteq> Ended"
  | user s cenv es' where "serve_user w ns mounts user cenv = (es', out)"
    "es = TlsUp s # es' @ [CloseConn]"
  using assms
  by (auto simp: handle_rcpu_def Let_def split: prod.splits sum.splits go.splits)


text \<open>Where the shell's console is: on the pseudo terminal, or straight on the client's.\<close>

lemma try_slave_ok: "try_slave n rs name = (True, es) \<Longrightarrow> OpenSlave name True \<in> set es"
  by (induction n rs name arbitrary: es rule: try_slave.induct) (auto split: prod.splits)

lemma launch_shell_console:
  assumes "StartShell cmd \<in> set (launch_shell w ns mk dir)"
  shows "(\<exists>name. cmd = mk name ''plan9'' \<and> OpenSlave name True \<in> set (launch_shell w ns mk dir)
      \<and> RelayNotes \<in> set (launch_shell w ns mk dir))
    \<or> (cmd = mk (path_join [dir, ''dev/cons'']) [] \<and> RelayNotes \<notin> set (launch_shell w ns mk dir))"
proof (cases rule: launch_shell_cases [of w ns mk dir])
  case (1 es)
  then show ?thesis using assms open_pty_events [of w]
    by (auto simp: run_shell_direct_def Let_def split: if_splits)
next
  case (2 name es ts)
  have "StartShell cmd \<in> set (run_shell_pty w ns (mk name ''plan9''))"
    using assms 2 open_pty_events [OF 2(1)] try_slave_events [OF 2(2)] by fastforce
  then have "cmd = mk name ''plan9'' \<and> RelayNotes \<in> set (run_shell_pty w ns (mk name ''plan9''))"
    by (auto simp: run_shell_pty_def split: if_splits)
  then show ?thesis using 2 try_slave_ok [OF 2(2)] by auto
next
  case (3 name es ts)
  have "RelayNotes \<notin> set es" "StartShell cmd \<notin> set es"
    "RelayNotes \<notin> set ts" "StartShell cmd \<notin> set ts"
    using open_pty_events [OF 3(1)] try_slave_events [OF 3(2)] by auto
  then show ?thesis
    using assms 3 by (auto simp: run_shell_direct_def Let_def split: if_splits)
qed

lemma serve_user_launch:
  assumes "serve_user w ns mounts user cenv = (es, out)" and "StartShell cmd \<in> set es"
  obtains hname es1 es2 where
    "es = es1 @ launch_shell w ns
       (\<lambda>f term. session_cmd (w_environ w) user hname (w_ns_dir w) f cenv term) (w_ns_dir w) @ es2"
    "\<forall>e \<in> set (es1 @ es2). e \<noteq> RelayNotes \<and> (\<forall>c. e \<noteq> StartShell c)"
proof (cases rule: serve_user_cases [of w ns mounts user cenv])
  case (4 sp hname)
  show ?thesis
    by (rule that [of "Start9P user # open_session_fb w @ map (\<lambda>m. AddMount (ms_path m) (ms_name m)) mounts
        @ [MkDir (w_sock_dir w), Listen sp, MkDir (w_ns_dir w), StartFuse (''unix!'' @ sp) (w_ns_dir w)]
        @ accept_local w"
        hname "[KillFuse, RemoveAll (w_ns_dir w), RemoveAll (path_dir sp), CloseListener]"])
      (use 4 assms open_session_fb_events [of _ w] in \<open>auto dest: accept_local_events\<close>)
qed (use assms open_session_fb_events [of _ w] in \<open>auto dest: accept_local_events\<close>)

text \<open>The shell's console: either the slave of a pseudo terminal that was opened, with
  \<open>TERM=plan9\<close> and the client's notes relayed as interrupts, or the console file of the session's
  name space, and then no note is ever relayed: without a pseudo terminal the interrupt key does
  nothing.\<close>

lemma session_console:
  assumes "handle_rcpu w ns domain mounts c0 = (es, out)" and "StartShell cmd \<in> set es"
  shows "(OpenSlave (sc_stdin cmd) True \<in> set es \<and> RelayNotes \<in> set es
      \<and> exec_env (sc_env cmd) ''TERM'' = Some ''plan9'')
    \<or> (sc_stdin cmd = path_join [w_ns_dir w, ''dev/cons''] \<and> RelayNotes \<notin> set es)"
proof -
  obtain ai :: auth_info and cenv es' where s: "serve_user w ns mounts (cuid ai) cenv = (es', out)"
    "StartShell cmd \<in> set es'" "es = TlsUp (secret ai) # es' @ [CloseConn]"
    by (rule handle_rcpu_user [OF assms]) blast
  obtain hname es1 es2 where l: "es' = es1 @ launch_shell w ns
      (\<lambda>f term. session_cmd (w_environ w) (cuid ai) hname (w_ns_dir w) f cenv term) (w_ns_dir w) @ es2"
    "\<forall>e \<in> set (es1 @ es2). e \<noteq> RelayNotes \<and> (\<forall>c. e \<noteq> StartShell c)"
    using serve_user_launch [OF s(1,2)] by blast
  have "StartShell cmd \<in> set (launch_shell w ns
      (\<lambda>f term. session_cmd (w_environ w) (cuid ai) hname (w_ns_dir w) f cenv term) (w_ns_dir w))"
    using l s(2) by auto
  from launch_shell_console [OF this] show ?thesis
    unfolding s(3) l(1) using l(2) by (auto simp: session_cmd_fields session_cmd_env)
qed

theorem session_shell_authentic_witness:
  "exec_env (sc_env demo_shell) ''USER'' = Some ''glenda''
   \<and> sc_path demo_shell = ''/usr/local/bin/rc'' \<and> StartShell demo_shell \<in> set demo_events"
proof -
  obtain ai :: auth_info and cenv es' where
    a: "demo_events = TlsUp (secret ai) # Start9P (cuid ai) # es'"
    "exec_env (sc_env demo_shell) ''USER'' = Some (cuid ai)"
    using session_shell_authentic [OF demo_session demo_shell_started] by blast
  then have "cuid ai = ''glenda''" by (simp add: demo_events_def)
  then show ?thesis
    using a(2) demo_shell_started
    by (simp add: demo_shell_def session_cmd_fields resolve_shell_def)
qed


lemma session_console_example:
  "OpenSlave (sc_stdin demo_shell) True \<in> set demo_events \<and> RelayNotes \<in> set demo_events"
proof -
  have "RelayNotes \<in> set demo_events" by (simp add: demo_events_def)
  then show ?thesis using session_console [OF demo_session demo_shell_started] by blast
qed

end
