(* ===== verification/Simulation.thy ===== *)
theory Simulation
  imports Go_Base
begin

text \<open>
  Refinement of an abstract specification by the operations of the code: the locale \<open>simulation\<close>
  has one step function for each side, from an operation and a state to a result and a state, an
  abstraction of the state and an invariant. Its client lemmas carry the agreement of one step to
  every sequence of operations.
\<close>

fun run_ops :: "('o \<Rightarrow> 's \<Rightarrow> 'r \<times> 's) \<Rightarrow> 'o list \<Rightarrow> 's \<Rightarrow> 'r list \<times> 's" where
  "run_ops f [] s = ([], s)"
| "run_ops f (oper # ops) s =
     (let (r, s1) = f oper s; (rs, s2) = run_ops f ops s1 in (r # rs, s2))"

lemma run_ops_append:
  "run_ops f (xs @ ys) s =
     (let (rs, s1) = run_ops f xs s; (qs, s2) = run_ops f ys s1 in (rs @ qs, s2))"
  by (induction xs arbitrary: s) (auto simp: Let_def split_beta)

lemma run_ops_length: "length (fst (run_ops f ops s)) = length ops"
  by (induction ops arbitrary: s) (auto simp: Let_def split_beta)

text \<open>An invariant of the steps that the operations of the sequence keep.\<close>

lemma run_ops_invariant:
  assumes "\<And>oper s. oper \<in> set ops \<Longrightarrow> P s \<Longrightarrow> P (snd (f oper s))" and "P s"
  shows "P (snd (run_ops f ops s))"
  using assms by (induction ops arbitrary: s) (auto simp: Let_def split_beta)

locale simulation =
  fixes cstep :: "'o \<Rightarrow> 'c \<Rightarrow> 'r \<times> 'c"
    and astep :: "'o \<Rightarrow> 'a \<Rightarrow> 'r \<times> 'a"
    and abst :: "'c \<Rightarrow> 'a"
    and inv :: "'c \<Rightarrow> bool"
  assumes step_inv: "inv s \<Longrightarrow> inv (snd (cstep oper s))"
    and step_sim: "inv s \<Longrightarrow>
      fst (cstep oper s) = fst (astep oper (abst s)) \<and> abst (snd (cstep oper s)) = snd (astep oper (abst s))"
begin

lemma run_inv: "inv s \<Longrightarrow> inv (snd (run_ops cstep ops s))"
  using step_inv by (induction ops arbitrary: s) (auto simp: Let_def split_beta)

lemma run_sim:
  "inv s \<Longrightarrow> fst (run_ops cstep ops s) = fst (run_ops astep ops (abst s))
    \<and> abst (snd (run_ops cstep ops s)) = snd (run_ops astep ops (abst s))"
proof (induction ops arbitrary: s)
  case Nil
  show ?case by simp
next
  case (Cons oper ops)
  obtain r s1 where c: "cstep oper s = (r, s1)" by fastforce
  have i: "inv s1" using step_inv [OF Cons.prems, of oper] c by simp
  have "astep oper (abst s) = (r, abst s1)"
    using step_sim [OF Cons.prems, of oper] c by (cases "astep oper (abst s)") simp
  then show ?case using Cons.IH [OF i] c by (simp add: Let_def split_beta)
qed

end

end
