(* ===== verification/Tls_Psk.thy ===== *)
theory Tls_Psk
  imports Net_Conn Simulation
begin

text \<open>
  The TLS-PSK upgrade and its connection (\<open>cmd/rcpud/ssl_psk.go\<close>, the C part included).

  What the kernel and OpenSSL answer is the record \<open>ossl\<close>: \<open>o_accept\<close> is the result of \<open>SSL_accept\<close>
  for the key the callback hands out. A read of the connection takes the next outcome of
  \<open>SSL_read\<close>: a record, or a call that returns 0 with nothing fatal (\<open>None\<close>); after the listed ones
  every call fails with \<open>t_fail\<close>, as a failed SSL connection does. The effects on memory and
  descriptors are listed as \<open>tls_ev\<close>.
\<close>

section \<open>The handshake\<close>

datatype conn_kind = Tcp | OtherConn

datatype ssl_error = ZeroReturn | Syscall | SslErr | WantRead | OtherErr

record ossl =
  o_file :: "string option"       \<comment> \<open>error of \<open>tcp.File()\<close>\<close>
  o_malloc :: bool
  o_ctx :: bool                   \<comment> \<open>\<open>SSL_CTX_new\<close> succeeds\<close>
  o_ssl :: bool
  o_max_psk :: nat
  o_accept :: "string \<Rightarrow> int"

datatype tls_ev =
    FileDup | FileClose | Malloc | Free | CtxNew | CtxFree | SslNew | SslFree | Accept string

text \<open>\<open>psk_cb\<close>: the key, or the length 0 that makes the handshake fail.\<close>

definition psk_cb :: "string \<Rightarrow> nat \<Rightarrow> string" where
  "psk_cb sec max_psk_len =
     (if length sec = 0 \<or> length sec > max_psk_len then [] else sec)"

definition do_accept :: "ossl \<Rightarrow> string \<Rightarrow> bool \<times> tls_ev list" where
  "do_accept ssl sec =
     (if \<not> o_ctx ssl then (False, [])
      else if \<not> o_ssl ssl then (False, [CtxNew, CtxFree])
      else
        let psk = psk_cb sec (o_max_psk ssl); ret = o_accept ssl psk in
        if ret \<noteq> 1 then (False, [CtxNew, SslNew, Accept psk, SslFree, CtxFree])
        else (True, [CtxNew, SslNew, Accept psk, CtxFree]))"

definition err_invalid :: string where "err_invalid = ''invalid argument''"

text \<open>\<open>wrapTlsPsk\<close>; \<open>&secret[0]\<close> panics for an empty secret.\<close>

definition wrap_tls_psk :: "conn_kind \<Rightarrow> ossl \<Rightarrow> string \<Rightarrow> (string + unit) go \<times> tls_ev list" where
  "wrap_tls_psk kind ssl sec =
     (if kind \<noteq> Tcp then (Ret (Inl err_invalid), [])
      else (case o_file ssl of
              Some e \<Rightarrow> (Ret (Inl e), [])
            | None \<Rightarrow>
                if \<not> o_malloc ssl then (Ret (Inl err_invalid), [FileDup, FileClose])
                else if sec = [] then (Panic, [FileDup, Malloc])
                else (case do_accept ssl sec of
                        (False, es) \<Rightarrow>
                          (Ret (Inl err_invalid), [FileDup, Malloc] @ es @ [Free, FileClose])
                      | (True, es) \<Rightarrow> (Ret (Inr ()), [FileDup, Malloc] @ es @ [Free]))))"

section \<open>The connection\<close>

record tls_conn =
  t_ssl :: bool                    \<comment> \<open>the pointer is not nil\<close>
  t_closed :: bool
  t_in :: "string option list"
  t_fail :: "int \<times> ssl_error"
  t_out :: "string list"
  t_wleft :: "nat option"          \<comment> \<open>how many more writes succeed\<close>
  t_shut :: nat                    \<comment> \<open>calls of \<open>do_close\<close>\<close>
  t_fclosed :: nat                 \<comment> \<open>closes of the file\<close>

text \<open>\<open>do_read\<close>: the bytes of a positive result, else the result it returns.\<close>

definition fatal :: "ssl_error \<Rightarrow> bool" where
  "fatal e \<longleftrightarrow> e \<in> {ZeroReturn, Syscall, SslErr}"

definition do_read :: "nat \<Rightarrow> tls_conn \<Rightarrow> (string \<times> int) \<times> tls_conn" where
  "do_read n c =
     (case t_in c of
        [] \<Rightarrow> (case t_fail c of (r, e) \<Rightarrow> (([], if fatal e then - 1 else r), c))
      | None # xs \<Rightarrow> (([], 0), c\<lparr>t_in := xs\<rparr>)
      | Some bs # xs \<Rightarrow>
          (let got = take n bs in
           ((got, int (length got)),
            c\<lparr>t_in := (if length bs \<le> n then xs else Some (drop n bs) # xs)\<rparr>)))"

definition tls_read :: "nat \<Rightarrow> tls_conn \<Rightarrow> ((string \<times> goerr option) \<times> tls_conn) go" where
  "tls_read n c =
     (if t_closed c \<or> \<not> t_ssl c then Ret (([], Some EOF), c)
      else if n = 0 then Panic
      else (case do_read n c of
              ((bs, r), c1) \<Rightarrow>
                if r < 0 then Ret (([], Some EOF), c1) else Ret ((bs, None), c1)))"

definition do_write :: "string \<Rightarrow> tls_conn \<Rightarrow> int \<times> tls_conn" where
  "do_write bs c =
     (case t_wleft c of
        Some 0 \<Rightarrow> (- 1, c)
      | Some (Suc k) \<Rightarrow> (int (length bs), c\<lparr>t_out := t_out c @ [bs], t_wleft := Some k\<rparr>)
      | None \<Rightarrow> (int (length bs), c\<lparr>t_out := t_out c @ [bs]\<rparr>))"

definition tls_write :: "string \<Rightarrow> tls_conn \<Rightarrow> ((nat \<times> goerr option) \<times> tls_conn) go" where
  "tls_write bs c =
     (if t_closed c \<or> \<not> t_ssl c then Ret ((0, Some EOF), c)
      else if bs = [] then Panic
      else (case do_write bs c of
              (r, c1) \<Rightarrow>
                if r \<le> 0 then Ret ((0, Some EOF), c1) else Ret ((nat r, None), c1)))"

text \<open>\<open>do_close\<close> shuts the SSL object down and frees it.\<close>

definition tls_close :: "tls_conn \<Rightarrow> tls_conn" where
  "tls_close c =
     (if t_closed c then c
      else
        let c1 = c\<lparr>t_closed := True\<rparr>;
            c2 = (if t_ssl c1 then c1\<lparr>t_shut := t_shut c1 + 1, t_ssl := False\<rparr> else c1)
        in c2\<lparr>t_fclosed := t_fclosed c2 + 1\<rparr>)"

text \<open>The connection \<open>wrapTlsPsk\<close> returns, for what the peer will send.\<close>

definition new_tls :: "string option list \<Rightarrow> int \<times> ssl_error \<Rightarrow> nat option \<Rightarrow> tls_conn" where
  "new_tls xs fl wl =
     \<lparr>t_ssl = True, t_closed = False, t_in = xs, t_fail = fl, t_out = [], t_wleft = wl,
      t_shut = 0, t_fclosed = 0\<rparr>"

section \<open>Memory and descriptors\<close>

text \<open>What the handshake holds: the ledger of its effects.\<close>

datatype tls_res = TFile | TSecret | TCtx | TSsl

fun tls_hold :: "tls_ev \<Rightarrow> tls_res set \<Rightarrow> tls_res set" where
  "tls_hold FileDup S = insert TFile S"
| "tls_hold FileClose S = S - {TFile}"
| "tls_hold Malloc S = insert TSecret S"
| "tls_hold Free S = S - {TSecret}"
| "tls_hold CtxNew S = insert TCtx S"
| "tls_hold CtxFree S = S - {TCtx}"
| "tls_hold SslNew S = insert TSsl S"
| "tls_hold SslFree S = S - {TSsl}"
| "tls_hold (Accept p) S = S"

text \<open>Claim C15. The upgrade succeeds exactly when the connection is TCP, its descriptor could be
  duplicated, the C copy of the secret, the context and the SSL object could be made, the secret is
  neither empty nor longer than OpenSSL takes, and \<open>SSL_accept\<close> returned 1 for the client with
  that secret itself as the key. It panics exactly for an empty secret on a TCP connection it got
  that far with; in every other case it returns an error. After a success it holds exactly what
  its connection needs, the duplicated descriptor and the SSL object (the context and the copy of
  the secret are gone), and after an error nothing at all; the panic leaves the descriptor and the
  copy. What is relied on of OpenSSL: no handshake is accepted with the empty key.\<close>

theorem tls_upgrade_exact:
  assumes "wrap_tls_psk kind ssl sec = (r, es)"
    and "\<forall>psk. o_accept ssl psk = 1 \<longrightarrow> psk \<noteq> []"
  shows "(r = Ret (Inr ()) \<longleftrightarrow> kind = Tcp \<and> o_file ssl = None \<and> o_malloc ssl \<and> o_ctx ssl \<and> o_ssl ssl
        \<and> 0 < length sec \<and> length sec \<le> o_max_psk ssl \<and> o_accept ssl sec = 1)
    \<and> (r = Panic \<longleftrightarrow> kind = Tcp \<and> o_file ssl = None \<and> o_malloc ssl \<and> sec = [])
    \<and> (r = Ret (Inr ()) \<longrightarrow> Accept sec \<in> set es)
    \<and> fold tls_hold es {} = (case r of Ret (Inr _) \<Rightarrow> {TFile, TSsl} | Ret (Inl e) \<Rightarrow> {}
        | Panic \<Rightarrow> {TFile, TSecret})"
proof -
  have psk: "o_accept ssl (psk_cb sec (o_max_psk ssl)) = 1 \<longleftrightarrow>
      0 < length sec \<and> length sec \<le> o_max_psk ssl \<and> o_accept ssl sec = 1"
    using assms(2) by (auto simp: psk_cb_def split: if_splits)
  have key: "0 < length sec \<Longrightarrow> length sec \<le> o_max_psk ssl \<Longrightarrow> psk_cb sec (o_max_psk ssl) = sec"
    by (simp add: psk_cb_def)
  show ?thesis
    using assms(1) psk key
    by (auto simp: wrap_tls_psk_def do_accept_def Let_def split: if_splits option.splits)
qed

definition demo_ossl :: ossl where
  "demo_ossl = \<lparr>o_file = None, o_malloc = True, o_ctx = True, o_ssl = True, o_max_psk = 256,
     o_accept = (\<lambda>psk. if psk = ''key'' then 1 else 0)\<rparr>"

theorem tls_upgrade_exact_witness:
  "fst (wrap_tls_psk Tcp demo_ossl ''key'') = Ret (Inr ())
   \<and> fold tls_hold (snd (wrap_tls_psk Tcp demo_ossl ''key'')) {} = {TFile, TSsl}
   \<and> fst (wrap_tls_psk Tcp demo_ossl ''kez'') \<noteq> Ret (Inr ())"
proof -
  have k: "\<forall>psk. o_accept demo_ossl psk = 1 \<longrightarrow> psk \<noteq> []" by (simp add: demo_ossl_def)
  obtain r1 es1 where 1: "wrap_tls_psk Tcp demo_ossl ''key'' = (r1, es1)" by fastforce
  obtain r2 es2 where 2: "wrap_tls_psk Tcp demo_ossl ''kez'' = (r2, es2)" by fastforce
  show ?thesis
    using tls_upgrade_exact [OF 1 k] tls_upgrade_exact [OF 2 k] 1 2 by (simp add: demo_ossl_def)
qed


section \<open>The stream\<close>

definition tls_pending :: "tls_conn \<Rightarrow> string" where
  "tls_pending c = concat (map (\<lambda>x. case x of None \<Rightarrow> [] | Some bs \<Rightarrow> bs) (t_in c))"

definition tls_rest :: "tls_conn \<Rightarrow> string" where
  "tls_rest c = (if t_closed c \<or> \<not> t_ssl c then [] else tls_pending c)"

definition tls_rd :: "nat \<Rightarrow> tls_conn \<Rightarrow> (string \<times> goerr option) \<times> tls_conn" where
  "tls_rd n c = (case tls_read n c of Ret r \<Rightarrow> r | Panic \<Rightarrow> (([], None), c))"

lemma do_read_pending:
  assumes "do_read n c = ((bs, r), c1)"
  shows "tls_pending c = bs @ tls_pending c1" and "length bs \<le> n" and "t_closed c1 = t_closed c"
    and "t_ssl c1 = t_ssl c" and "t_out c1 = t_out c" and "t_shut c1 = t_shut c"
    and "t_fclosed c1 = t_fclosed c" and "r < 0 \<Longrightarrow> t_in c1 = [] \<and> bs = []"
  using assms
  by (auto simp: do_read_def tls_pending_def Let_def split: list.splits option.splits prod.splits
      if_splits)

interpretation tls: byte_source tls_rd tls_rest
proof unfold_locales
  fix n :: nat and s s' :: tls_conn and bs :: string and oe
  assume rd: "tls_rd n s = ((bs, oe), s')"
  obtain b r c1 where d: "do_read n s = ((b, r), c1)" by (metis prod.exhaust)
  note p = do_read_pending [OF d]
  show "tls_rest s = bs @ tls_rest s'"
    using rd d p(1,3,4,8) by (auto simp: tls_rd_def tls_read_def tls_rest_def split: if_splits)
  show "length bs \<le> n"
    using rd d p(2) by (auto simp: tls_rd_def tls_read_def split: if_splits)
next
  fix n :: nat and s s' :: tls_conn and bs :: string and e
  assume rd: "tls_rd n s = ((bs, Some e), s')"
  obtain b r c1 where d: "do_read n s = ((b, r), c1)" by (metis prod.exhaust)
  show "tls_rest s' = []"
    using rd d do_read_pending(8) [OF d]
    by (auto simp: tls_rd_def tls_read_def tls_rest_def tls_pending_def split: if_splits)
qed

datatype tls_op = TRead nat | TWrite string | TClose

datatype tls_answer =
    ReadAns "(string \<times> goerr option) go" | WriteAns "(nat \<times> goerr option) go" | CloseAns

fun tls_step :: "tls_op \<Rightarrow> tls_conn \<Rightarrow> tls_answer \<times> tls_conn" where
  "tls_step (TRead n) c =
     (case tls_read n c of Ret (r, c1) \<Rightarrow> (ReadAns (Ret r), c1) | Panic \<Rightarrow> (ReadAns Panic, c))"
| "tls_step (TWrite bs) c =
     (case tls_write bs c of Ret (r, c1) \<Rightarrow> (WriteAns (Ret r), c1) | Panic \<Rightarrow> (WriteAns Panic, c))"
| "tls_step TClose c = (CloseAns, tls_close c)"

text \<open>What the answers of a run delivered, and what the peer was sent.\<close>

definition delivered :: "tls_answer \<Rightarrow> string" where
  "delivered a = (case a of ReadAns (Ret (bs, e)) \<Rightarrow> bs | _ \<Rightarrow> [])"

definition accepted :: "tls_op \<times> tls_answer \<Rightarrow> string list" where
  "accepted x = (case x of (TWrite bs, WriteAns (Ret (n, None))) \<Rightarrow> [bs] | _ \<Rightarrow> [])"

definition tls_ok :: "tls_conn \<Rightarrow> bool" where
  "tls_ok c \<longleftrightarrow> t_ssl c = (\<not> t_closed c) \<and> t_shut c = (if t_closed c then 1 else 0)
     \<and> t_fclosed c = t_shut c"

lemma tls_step_effect:
  assumes "tls_ok c" and "tls_step oper c = (a, c1)"
  shows "tls_ok c1 \<and> tls_pending c = delivered a @ tls_pending c1
    \<and> t_out c1 = t_out c @ accepted (oper, a) \<and> (t_closed c1 \<longleftrightarrow> t_closed c \<or> oper = TClose)
    \<and> (t_closed c \<longrightarrow> delivered a = [] \<and> accepted (oper, a) = [])"
proof (cases oper)
  case (TRead n)
  obtain b r c2 where d: "do_read n c = ((b, r), c2)" by (metis prod.exhaust)
  show ?thesis
    using assms TRead d do_read_pending [OF d]
    by (auto simp: tls_read_def tls_ok_def delivered_def accepted_def split: if_splits)
next
  case (TWrite bs)
  then show ?thesis
    using assms
    by (auto simp: tls_write_def do_write_def tls_ok_def delivered_def accepted_def tls_pending_def
        split: if_splits option.splits nat.splits)
next
  case TClose
  then show ?thesis
    using assms
    by (auto simp: tls_close_def tls_ok_def delivered_def accepted_def tls_pending_def Let_def
        split: if_splits)
qed

lemma tls_run_effect:
  assumes "tls_ok c" and "run_ops tls_step ops c = (as, c1)"
  shows "tls_ok c1 \<and> tls_pending c = concat (map delivered as) @ tls_pending c1
    \<and> t_out c1 = t_out c @ concat (map accepted (zip ops as))
    \<and> (t_closed c1 \<longleftrightarrow> t_closed c \<or> TClose \<in> set ops)
    \<and> (t_closed c \<longrightarrow> concat (map delivered as) = [] \<and> concat (map accepted (zip ops as)) = [])"
  using assms
proof (induction ops arbitrary: c as)
  case Nil
  then show ?case by auto
next
  case (Cons oper ops)
  obtain a c2 where s: "tls_step oper c = (a, c2)" by fastforce
  obtain bs c3 where r: "run_ops tls_step ops c2 = (bs, c3)" by fastforce
  have e: "as = a # bs" "c1 = c3" using Cons.prems(2) s r by (auto simp: Let_def)
  note st = tls_step_effect [OF Cons.prems(1) s]
  then have "tls_ok c2" by blast
  from Cons.IH [OF this r [folded e(2)]] show ?case using st e by auto
qed

text \<open>Claim C14. The TLS connection is a stream, for every sequence of reads, writes and closes: what the
  reads deliver, in order, is a prefix of the peer's plain text and what is left is still to come;
  the peer is sent exactly the writes that returned no error; after the first close nothing is
  delivered or sent; and the SSL object and the file are closed once when there was a close,
  however many there were, and not otherwise.\<close>

theorem tls_conn_stream:
  assumes "run_ops tls_step ops (new_tls xs fl wl) = (as, c)"
  shows "tls_pending (new_tls xs fl wl) = concat (map delivered as) @ tls_pending c
    \<and> t_out c = concat (map accepted (zip ops as))
    \<and> t_shut c = (if TClose \<in> set ops then 1 else 0) \<and> t_fclosed c = t_shut c
    \<and> (\<forall>ops1 ops2. ops = ops1 @ TClose # ops2 \<longrightarrow>
         concat (map delivered (drop (length ops1) as)) = []
         \<and> t_out c = concat (map accepted (zip ops1 (take (length ops1) as))))"
proof -
  have ok: "tls_ok (new_tls xs fl wl)" by (simp add: tls_ok_def new_tls_def)
  note r = tls_run_effect [OF ok assms]
  have n: "t_closed (new_tls xs fl wl) = False" "t_out (new_tls xs fl wl) = []"
    by (simp_all add: new_tls_def)
  have "concat (map delivered (drop (length ops1) as)) = []
      \<and> t_out c = concat (map accepted (zip ops1 (take (length ops1) as)))"
    if o: "ops = ops1 @ TClose # ops2" for ops1 ops2
  proof -
    obtain a1 c1 where r1: "run_ops tls_step ops1 (new_tls xs fl wl) = (a1, c1)" by fastforce
    note e1 = tls_run_effect [OF ok r1]
    have k: "tls_ok (tls_close c1)" using tls_step_effect [of c1 TClose] e1 by simp
    obtain a2 c2 where r2: "run_ops tls_step ops2 (tls_close c1) = (a2, c2)" by fastforce
    note e2 = tls_run_effect [OF k r2]
    have l: "length a1 = length ops1" using run_ops_length [of tls_step ops1] r1 by (metis fst_conv)
    have "as = a1 @ CloseAns # a2" "c = c2"
      using assms r1 r2 by (simp_all add: o run_ops_append Let_def)
    moreover have "t_closed (tls_close c1)" by (simp add: tls_close_def Let_def)
    moreover have "t_out (tls_close c1) = t_out c1" by (simp add: tls_close_def Let_def)
    ultimately show ?thesis
      using e1 e2 l n by (simp add: delivered_def)
  qed
  then show ?thesis using r n by (auto simp: tls_ok_def)
qed

theorem tls_conn_stream_witness:
  "t_shut (snd (run_ops tls_step [TRead 2, TWrite ''x'', TClose, TClose, TRead 9]
     (new_tls [Some ''abc''] (0, ZeroReturn) None))) = 1
   \<and> tls_pending (snd (run_ops tls_step [TRead 2, TWrite ''x'', TClose, TClose, TRead 9]
     (new_tls [Some ''abc''] (0, ZeroReturn) None))) = ''c''"
proof -
  let ?ops = "[TRead 2, TWrite ''x'', TClose, TClose, TRead 9]"
  obtain as c where r: "run_ops tls_step ?ops (new_tls [Some ''abc''] (0, ZeroReturn) None) = (as, c)"
    by fastforce
  have "tls_pending c = ''c''"
    using r by (auto simp: tls_read_def tls_write_def do_read_def do_write_def tls_close_def
        new_tls_def tls_pending_def Let_def)
  moreover have "t_shut c = 1" using tls_conn_stream [OF r] by simp
  ultimately show ?thesis using r by (simp del: run_ops.simps)
qed

end
