(* ===== verification/Namespace.thy ===== *)
theory Namespace
  imports Client_Env
begin

text \<open>
  The name space of a session: \<open>setupNamespace\<close>, \<open>getConsFile\<close>, \<open>watchInterrupts\<close> and \<open>ProxyFile\<close> of
  \<open>cmd/rcpud/main.go\<close>, \<open>addFramebuffer\<close> of \<open>fb.go\<close>, and \<open>drawproxy.go\<close>.

  The trees of static directories belong to the 9P library. Its operations are the record \<open>tree_ops\<close>
  over a state of the library's own; directories are known by numbers, as Go knows them by
  pointers. \<open>tree_laws\<close> is what the library documents of them: a new directory is empty, a child is
  listed under its name, and a name that is taken keeps its child. What the client's file server
  answers to a stat (the name it reports) and an open (a file) is the record \<open>remote\<close>.
\<close>

section \<open>The library's trees\<close>

datatype vnode = DirV nat | ProxyV nat | FbV u64 | MountV mount_spec | DrawV nat | MouseV nat

record 's tree_ops =
  new_dir :: "string \<Rightarrow> 's \<Rightarrow> nat \<times> 's"
  add_child :: "nat \<Rightarrow> string \<Rightarrow> vnode \<Rightarrow> 's \<Rightarrow> 's"
  kids :: "nat \<Rightarrow> 's \<Rightarrow> string \<rightharpoonup> vnode"
  is_dir :: "nat \<Rightarrow> 's \<Rightarrow> bool"

definition tree_laws :: "'s tree_ops \<Rightarrow> bool" where
  "tree_laws t \<longleftrightarrow>
     (\<forall>name s d s'. new_dir t name s = (d, s') \<longrightarrow>
        \<not> is_dir t d s \<and> (\<forall>e. is_dir t e s' \<longleftrightarrow> e = d \<or> is_dir t e s) \<and> kids t d s' = Map.empty
        \<and> (\<forall>e. e \<noteq> d \<longrightarrow> kids t e s' = kids t e s))
     \<and> (\<forall>d name n s. (\<forall>e. is_dir t e (add_child t d name n s) = is_dir t e s)
        \<and> (is_dir t d s \<longrightarrow> kids t d (add_child t d name n s) =
             (if kids t d s name = None then (kids t d s)(name \<mapsto> n) else kids t d s))
        \<and> (\<forall>e. e \<noteq> d \<longrightarrow> kids t e (add_child t d name n s) = kids t e s))"

record remote =
  r_stat :: "string \<Rightarrow> goerr + string"
  r_open :: "string \<Rightarrow> goerr + nat"

section \<open>Building the name space\<close>

definition add_console :: "'s tree_ops \<Rightarrow> remote \<Rightarrow> nat \<Rightarrow> 's \<Rightarrow> 's" where
  "add_console t cl root s =
     (case r_stat cl ''dev/cons'' of
        Inl e \<Rightarrow> s
      | Inr cname \<Rightarrow>
          (case r_open cl ''dev/cons'' of
             Inl e \<Rightarrow> s
           | Inr cfile \<Rightarrow>
               let (dev, s1) = new_dir t ''dev'' s;
                   s2 = add_child t dev cname (ProxyV cfile) s1
               in add_child t root ''dev'' (DirV dev) s2))"

text \<open>\<open>addFramebuffer\<close>; \<open>fb\<close> is what \<open>Copy\<close> returns, \<open>None\<close> without a framebuffer.\<close>

definition add_framebuffer :: "'s tree_ops \<Rightarrow> nat \<Rightarrow> 'p list option \<Rightarrow> 's \<Rightarrow> 's" where
  "add_framebuffer t root fb s =
     (case fb of
        None \<Rightarrow> s
      | Some pix \<Rightarrow>
          let (dev, s1) =
                (case kids t root s ''dev'' of
                   Some (DirV d) \<Rightarrow> (d, s)
                 | _ \<Rightarrow> let (d, s0) = new_dir t ''dev'' s in (d, add_child t root ''dev'' (DirV d) s0));
              (fbd, s2) = new_dir t ''fb'' s1;
              s3 = add_child t fbd ''data'' (FbV (of_nat (length pix))) s2
          in add_child t dev ''fb'' (DirV fbd) s3)"

text \<open>\<open>setupNamespace\<close>: the framebuffer only when a draw server is configured, the dumb buffer before
  \<open>/dev/fb0\<close>.\<close>

definition setup_namespace ::
    "'s tree_ops \<Rightarrow> remote \<Rightarrow> string \<Rightarrow> 'p list option \<Rightarrow> 'p list option \<Rightarrow> nat \<Rightarrow> 's \<Rightarrow> 's" where
  "setup_namespace t cl drawsrv_addr fb_dumb fb0 root s =
     (let s1 = add_console t cl root s in
      if drawsrv_addr \<noteq> [] then
        add_framebuffer t root (case fb_dumb of Some p \<Rightarrow> Some p | None \<Rightarrow> fb0) s1
      else s1)"

definition get_cons_file :: "'s tree_ops \<Rightarrow> nat \<Rightarrow> 's \<Rightarrow> nat option" where
  "get_cons_file t root s =
     (case kids t root s ''dev'' of
        Some (DirV d) \<Rightarrow> (case kids t d s ''cons'' of Some (ProxyV f) \<Rightarrow> Some f | _ \<Rightarrow> None)
      | _ \<Rightarrow> None)"

text \<open>The mounts of \<open>handleRcpu\<close>; the error of a name that is taken is dropped. The mounted directories
  are taken to exist, as \<open>-mount\<close> checked when the daemon started; for one removed since then
  \<open>newMountDir\<close> returns nil (\<open>Mount\<close>), and what the library does with a nil node is outside the
  model.\<close>

definition add_mounts :: "'s tree_ops \<Rightarrow> nat \<Rightarrow> mount_spec list \<Rightarrow> 's \<Rightarrow> 's" where
  "add_mounts t root ms s = fold (\<lambda>m. add_child t root (ms_name m) (MountV m)) ms s"

text \<open>\<open>watchInterrupts\<close>: the file of the notes, if it opens.\<close>

definition watch_interrupts :: "remote \<Rightarrow> nat option" where
  "watch_interrupts cl = (case r_open cl ''mnt/cpunote/data'' of Inl e \<Rightarrow> None | Inr f \<Rightarrow> Some f)"

section \<open>The draw proxy\<close>

definition find_or_create_dev_dir :: "'s tree_ops \<Rightarrow> nat \<Rightarrow> 's \<Rightarrow> nat \<times> 's" where
  "find_or_create_dev_dir t root s =
     (case kids t root s ''dev'' of
        Some (DirV d) \<Rightarrow> (d, s)
      | _ \<Rightarrow> let (d, s1) = new_dir t ''dev'' s in (d, add_child t root ''dev'' (DirV d) s1))"

text \<open>One file of the draw server: stat, then open, then a proxy under the name it reports.\<close>

definition proxy_one :: "'s tree_ops \<Rightarrow> remote \<Rightarrow> nat \<Rightarrow> string \<Rightarrow> (nat \<Rightarrow> vnode) \<Rightarrow> 's \<Rightarrow> 's" where
  "proxy_one t cl dev path mk s =
     (case r_stat cl path of
        Inl e \<Rightarrow> s
      | Inr name \<Rightarrow> (case r_open cl path of Inl e \<Rightarrow> s | Inr f \<Rightarrow> add_child t dev name (mk f) s))"

text \<open>\<open>AddDrawProxy\<close>: \<open>dial\<close> says whether the socket of the draw server exists and can be reached,
  \<open>client\<close> what its 9P client is. The second result says that the connection was closed.\<close>

definition add_draw_proxy ::
    "'s tree_ops \<Rightarrow> string \<Rightarrow> (string \<Rightarrow> bool) \<Rightarrow> (string \<Rightarrow> bool) \<Rightarrow> (goerr + remote) \<Rightarrow> nat \<Rightarrow> 's
     \<Rightarrow> 's \<times> bool" where
  "add_draw_proxy t ns sock_exists dial client root s =
     (if ns = [] then (s, False)
      else let sock = path_join [ns, ''drawsrv''] in
        if \<not> sock_exists sock then (s, False)
        else if \<not> dial sock then (s, False)
        else (case client of
                Inl e \<Rightarrow> (s, True)
              | Inr cl \<Rightarrow>
                  let (dev, s1) = find_or_create_dev_dir t root s;
                      s2 = proxy_one t cl dev ''dev/draw'' DrawV s1
                  in (proxy_one t cl dev ''dev/mouse'' MouseV s2, False)))"

section \<open>Proxy files\<close>

text \<open>A remote file as the 9P client shows it: \<open>ReadAt\<close> by offset and count, \<open>WriteAt\<close>. A buffer
  larger than the address space cannot be made.\<close>

type_synonym 'b read_at = "int \<Rightarrow> nat \<Rightarrow> 'b list \<times> goerr option"

definition proxy_read :: "'b read_at \<Rightarrow> u64 \<Rightarrow> u64 \<Rightarrow> (goerr + 'b list) go" where
  "proxy_read rd offset count =
     (if int (unat count) > max_alloc then Panic
      else (case rd (sint offset) (unat count) of
              (bs, None) \<Rightarrow> Ret (Inr bs)
            | (bs, Some e) \<Rightarrow> if e \<noteq> EOF then Ret (Inl e) else Ret (Inr bs)))"

definition proxy_write :: "(int \<Rightarrow> 'b list \<Rightarrow> nat \<times> goerr option) \<Rightarrow> u64 \<Rightarrow> 'b list \<Rightarrow> u32 \<times> goerr option" where
  "proxy_write wr offset data = (case wr (sint offset) data of (n, e) \<Rightarrow> (of_nat n, e))"

definition draw_proxy_read :: "'b read_at \<Rightarrow> u64 \<Rightarrow> u64 \<Rightarrow> (goerr + 'b list) go" where
  "draw_proxy_read rd offset count =
     (if int (unat count) > max_alloc then Panic
      else (case rd (sint offset) (unat count) of
              (bs, e) \<Rightarrow> if e \<noteq> None \<and> bs = [] then Ret (Inr []) else Ret (Inr bs)))"

definition draw_proxy_write ::
    "(int \<Rightarrow> 'b list \<Rightarrow> nat \<times> goerr option) \<Rightarrow> u64 \<Rightarrow> 'b list \<Rightarrow> u32 \<times> goerr option" where
  "draw_proxy_write wr offset data = (case wr (sint offset) data of (n, e) \<Rightarrow> (of_nat n, e))"

text \<open>The mouse is read without an offset.\<close>

definition mouse_proxy_read :: "(nat \<Rightarrow> 'b list \<times> goerr option) \<Rightarrow> u64 \<Rightarrow> u64 \<Rightarrow> (goerr + 'b list) go" where
  "mouse_proxy_read rd offset count =
     (if int (unat count) > max_alloc then Panic
      else (case rd (unat count) of (bs, Some e) \<Rightarrow> Ret (Inl e) | (bs, None) \<Rightarrow> Ret (Inr bs)))"


section \<open>What a client finds\<close>

lemma new_dirD:
  assumes "tree_laws t" and "new_dir t name s = (d, s')"
  shows "\<not> is_dir t d s" and "is_dir t e s' \<longleftrightarrow> e = d \<or> is_dir t e s" and "kids t d s' = Map.empty"
    and "e \<noteq> d \<Longrightarrow> kids t e s' = kids t e s"
  using assms unfolding tree_laws_def by blast+

lemma add_childD:
  assumes "tree_laws t"
  shows "is_dir t e (add_child t d name n s) = is_dir t e s"
    and "is_dir t d s \<Longrightarrow> kids t d (add_child t d name n s) =
      (if kids t d s name = None then (kids t d s)(name \<mapsto> n) else kids t d s)"
    and "e \<noteq> d \<Longrightarrow> kids t e (add_child t d name n s) = kids t e s"
  using assms unfolding tree_laws_def by blast+

text \<open>The console: \<open>/dev\<close> with one proxy, or nothing.\<close>

lemma add_console_tree:
  assumes t: "tree_laws t" and r: "is_dir t root s" "kids t root s = Map.empty"
  obtains "add_console t cl root s = s"
      "\<not> (\<exists>cname f. r_stat cl ''dev/cons'' = Inr cname \<and> r_open cl ''dev/cons'' = Inr f)"
  | cname f dev s1 where "r_stat cl ''dev/cons'' = Inr cname" "r_open cl ''dev/cons'' = Inr f"
      "add_console t cl root s = s1" "is_dir t root s1" "is_dir t dev s1" "dev \<noteq> root"
      "kids t root s1 = [''dev'' \<mapsto> DirV dev]" "kids t dev s1 = [cname \<mapsto> ProxyV f]"
proof (cases "r_stat cl ''dev/cons''")
  case (Inl e)
  then show ?thesis using that(1) by (simp add: add_console_def)
next
  case st: (Inr cname)
  show ?thesis
  proof (cases "r_open cl ''dev/cons''")
    case (Inl e)
    then show ?thesis using st that(1) by (simp add: add_console_def)
  next
    case (Inr f)
    obtain dev s1 where n: "new_dir t ''dev'' s = (dev, s1)" by fastforce
    note n1 = new_dirD [OF t n]
    have d: "dev \<noteq> root" "root \<noteq> dev" using n1(1) r(1) by auto
    let ?s2 = "add_child t dev cname (ProxyV f) s1"
    let ?s3 = "add_child t root ''dev'' (DirV dev) ?s2"
    have e: "add_console t cl root s = ?s3" using st Inr n by (simp add: add_console_def)
    have k: "kids t root s1 = Map.empty" "is_dir t root s1" "is_dir t dev s1"
      using n1 d r by auto
    then have "kids t dev ?s3 = [cname \<mapsto> ProxyV f]" "kids t root ?s3 = [''dev'' \<mapsto> DirV dev]"
      using n1(3) d by (simp_all add: add_childD [OF t])
    then show ?thesis
      using that(2) [OF st Inr e] k d by (simp add: add_childD [OF t])
  qed
qed

text \<open>\<open>/dev\<close> as found or made.\<close>

lemma find_or_create_tree:
  assumes t: "tree_laws t" and r: "is_dir t root s"
    and dev: "kids t root s = Map.empty \<or> (\<exists>d. kids t root s = [''dev'' \<mapsto> DirV d] \<and> d \<noteq> root
      \<and> is_dir t d s)"
    and p: "find_or_create_dev_dir t root s = (d, s1)"
  shows "is_dir t root s1 \<and> is_dir t d s1 \<and> d \<noteq> root \<and> kids t root s1 = [''dev'' \<mapsto> DirV d]
    \<and> kids t d s1 = (if kids t root s = Map.empty then Map.empty else kids t d s)
    \<and> (kids t root s \<noteq> Map.empty \<longrightarrow> kids t root s = [''dev'' \<mapsto> DirV d])"
proof (cases "kids t root s = Map.empty")
  case True
  obtain d' s0 where n: "new_dir t ''dev'' s = (d', s0)" by fastforce
  note n1 = new_dirD [OF t n]
  have e: "d = d'" "s1 = add_child t root ''dev'' (DirV d) s0"
    using p True n by (auto simp: find_or_create_dev_dir_def)
  have ne: "d \<noteq> root" "root \<noteq> d" using n1(1) r e(1) by auto
  have k: "kids t root s0 = Map.empty" "is_dir t root s0" "is_dir t d s0" "kids t d s0 = Map.empty"
    using n1 ne r True e(1) by auto
  have "kids t root s1 = [''dev'' \<mapsto> DirV d]"
    unfolding e(2) using add_childD(2) [OF t k(2)] k(1) by simp
  moreover have "kids t d s1 = Map.empty" unfolding e(2) using add_childD(3) [OF t ne(1)] k(4) by simp
  moreover have "is_dir t root s1" "is_dir t d s1" unfolding e(2) using add_childD(1) [OF t] k by simp_all
  ultimately show ?thesis using True ne by simp
next
  case False
  then show ?thesis using p dev r by (auto simp: find_or_create_dev_dir_def)
qed

lemma add_framebuffer_tree:
  assumes t: "tree_laws t" and r: "is_dir t root s"
    and dev: "kids t root s = Map.empty \<or> (\<exists>d. kids t root s = [''dev'' \<mapsto> DirV d] \<and> d \<noteq> root
      \<and> is_dir t d s \<and> kids t d s ''fb'' = None)"
  obtains d b where "d \<noteq> root" "b \<noteq> root" "is_dir t root (add_framebuffer t root (Some pix) s)"
    "kids t root (add_framebuffer t root (Some pix) s) = [''dev'' \<mapsto> DirV d]"
    "kids t d (add_framebuffer t root (Some pix) s)
      = (if kids t root s = Map.empty then Map.empty else kids t d s)(''fb'' \<mapsto> DirV b)"
    "kids t b (add_framebuffer t root (Some pix) s) = [''data'' \<mapsto> FbV (of_nat (length pix))]"
    "kids t root s \<noteq> Map.empty \<Longrightarrow> kids t root s = [''dev'' \<mapsto> DirV d]"
proof -
  obtain d s1 where p: "find_or_create_dev_dir t root s = (d, s1)" by fastforce
  have s1: "is_dir t root s1 \<and> is_dir t d s1 \<and> d \<noteq> root \<and> kids t root s1 = [''dev'' \<mapsto> DirV d]
      \<and> kids t d s1 = (if kids t root s = Map.empty then Map.empty else kids t d s)
      \<and> (kids t root s \<noteq> Map.empty \<longrightarrow> kids t root s = [''dev'' \<mapsto> DirV d])"
    by (rule find_or_create_tree [OF t r _ p]) (use dev in blast)
  then have free: "kids t d s1 ''fb'' = None" using dev by (auto dest!: map_upd_eqD1)
  obtain b s2 where n: "new_dir t ''fb'' s1 = (b, s2)" by fastforce
  note n2 = new_dirD [OF t n]
  let ?s3 = "add_child t b ''data'' (FbV (of_nat (length pix))) s2"
  let ?s4 = "add_child t d ''fb'' (DirV b) ?s3"
  have f: "add_framebuffer t root (Some pix) s = ?s4" 
    using p n by (simp add: add_framebuffer_def find_or_create_dev_dir_def)
  have ne: "b \<noteq> d" "b \<noteq> root" "d \<noteq> b" "root \<noteq> b" "root \<noteq> d" using n2(1) s1 by auto
  have "kids t root ?s4 = [''dev'' \<mapsto> DirV d]" "kids t b ?s4 = [''data'' \<mapsto> FbV (of_nat (length pix))]"
    "kids t d ?s4 = (kids t d s1)(''fb'' \<mapsto> DirV b)"
    using n2 s1 ne free by (simp_all add: add_childD [OF t])
  moreover have "is_dir t root ?s4" using n2 s1 by (simp add: add_childD [OF t])
  ultimately show ?thesis using that [of d b] s1 f ne by simp
qed

lemma namespace_tree:
  assumes "tree_laws t" and "is_dir t root s" and "kids t root s = Map.empty"
    and "r_stat cl ''dev/cons'' \<noteq> Inr ''fb''"
    and "s' = setup_namespace t cl addr fb_dumb fb0 root s"
  shows "is_dir t root s' \<and> (\<forall>d. kids t root s' ''dev'' = Some (DirV d) \<longrightarrow> d \<noteq> root)
    \<and> dom (kids t root s') \<subseteq> {''dev''}
    \<and> (get_cons_file t root s' = Some f \<longleftrightarrow>
         r_stat cl ''dev/cons'' = Inr ''cons'' \<and> r_open cl ''dev/cons'' = Inr f)
    \<and> (addr \<noteq> [] \<and> (case fb_dumb of Some p \<Rightarrow> Some p | None \<Rightarrow> fb0) = Some pix \<longrightarrow>
         (\<exists>d b. kids t root s' ''dev'' = Some (DirV d) \<and> kids t d s' ''fb'' = Some (DirV b)
           \<and> b \<noteq> root \<and> kids t b s' = [''data'' \<mapsto> FbV (of_nat (length pix))]))"
proof -
  let ?fb = "case fb_dumb of Some p \<Rightarrow> Some p | None \<Rightarrow> fb0"
  let ?s1 = "add_console t cl root s"
  have s': "s' = (if addr \<noteq> [] then add_framebuffer t root ?fb ?s1 else ?s1)"
    unfolding assms(5) setup_namespace_def by (simp add: Let_def)
  have none: "add_framebuffer t root (None :: 'b list option) x = x" for x
    by (simp add: add_framebuffer_def)
  show ?thesis
  proof (cases rule: add_console_tree [OF assms(1-3), of cl])
    case 1
    show ?thesis
    proof (cases "addr \<noteq> [] \<and> ?fb \<noteq> None")
      case True
      then obtain p where p: "?fb = Some p" by blast
      have r: "is_dir t root ?s1" "kids t root ?s1 = Map.empty" using 1 assms by simp_all
      obtain d b where "d \<noteq> root" "b \<noteq> root" "is_dir t root s'"
        "kids t root s' = [''dev'' \<mapsto> DirV d]" "kids t d s' = [''fb'' \<mapsto> DirV b]"
        "kids t b s' = [''data'' \<mapsto> FbV (of_nat (length p))]"
        using add_framebuffer_tree [OF assms(1) r(1) disjI1 [OF r(2)], of p] r(2) s' p True by auto
      then show ?thesis using 1 p by (auto simp: get_cons_file_def)
    next
      case False
      then have "s' = s" using s' 1(1) none by (auto simp del: not_None_eq)
      then show ?thesis using 1(2) assms(2,3) False by (auto simp: get_cons_file_def simp del: not_None_eq)
    qed
  next
    case (2 cname g dev s1)
    show ?thesis
    proof (cases "addr \<noteq> [] \<and> ?fb \<noteq> None")
      case True
      then obtain p where p: "?fb = Some p" by blast
      have k: "kids t dev s1 ''fb'' = None" using 2 assms(4) by auto
      have e: "s' = add_framebuffer t root (Some p) s1" using s' p True 2(3) by simp
      have ne: "kids t root s1 \<noteq> Map.empty" using 2(7) by simp
      have dv: "kids t root s1 = Map.empty \<or> (\<exists>d. kids t root s1 = [''dev'' \<mapsto> DirV d] \<and> d \<noteq> root
          \<and> is_dir t d s1 \<and> kids t d s1 ''fb'' = None)" using 2 k by blast
      obtain d b where g: "d \<noteq> root" "b \<noteq> root" "is_dir t root s'"
        and f: "kids t root s' = [''dev'' \<mapsto> DirV d]"
        "kids t d s' = (kids t d s1)(''fb'' \<mapsto> DirV b)"
        "kids t b s' = [''data'' \<mapsto> FbV (of_nat (length p))]" "kids t root s1 = [''dev'' \<mapsto> DirV d]"
        by (rule add_framebuffer_tree [OF assms(1) 2(4) dv, of p]) (use ne e in simp)
      have "d = dev" using f(4) 2(7) by (auto dest!: map_upd_eqD1)
      then show ?thesis using f(1,2,3) g 2(1,2,8) p by (auto simp: get_cons_file_def split: if_splits)
    next
      case False
      then have "s' = s1" using s' 2(3) none by (auto simp del: not_None_eq)
      then show ?thesis
        using 2 False by (auto simp: get_cons_file_def split: if_splits simp del: not_None_eq)
    qed
  qed
qed


text \<open>The exported directories appear under their names, the first of those with the same
  name; one whose name is taken, by an earlier one or as \<open>dev\<close> by the console, is dropped without
  an error, although the flag accepted it.\<close>

lemma add_mounts_other: "tree_laws t \<Longrightarrow> d \<noteq> root \<Longrightarrow> kids t d (add_mounts t root ms s) = kids t d s"
  by (induction ms arbitrary: s) (simp_all add: add_mounts_def add_childD)

lemma mounts_first_wins:
  assumes "tree_laws t" and "is_dir t root s"
  shows "kids t root (add_mounts t root ms s) name =
    (case kids t root s name of
       Some v \<Rightarrow> Some v
     | None \<Rightarrow> map_option MountV (find (\<lambda>m. ms_name m = name) ms))"
  using assms(2)
proof (induction ms arbitrary: s)
  case Nil
  then show ?case by (simp add: add_mounts_def split: option.split)
next
  case (Cons m ms)
  let ?s1 = "add_child t root (ms_name m) (MountV m) s"
  have "is_dir t root ?s1" using Cons.prems by (simp add: add_childD [OF assms(1)])
  from Cons.IH [OF this] have "kids t root (add_mounts t root (m # ms) s) name =
      (case kids t root ?s1 name of Some v \<Rightarrow> Some v
       | None \<Rightarrow> map_option MountV (find (\<lambda>m. ms_name m = name) ms))"
    by (simp add: add_mounts_def)
  then show ?case
    using add_childD(2) [OF assms(1) Cons.prems, of "ms_name m" "MountV m"]
    by (auto split: option.split)
qed

lemma get_cons_file_mounts:
  assumes "tree_laws t" and "is_dir t root s" and "\<forall>d. kids t root s ''dev'' = Some (DirV d) \<longrightarrow> d \<noteq> root"
  shows "get_cons_file t root (add_mounts t root ms s) = get_cons_file t root s"
  using assms add_mounts_other [OF assms(1)]
  by (cases "find (\<lambda>m. ms_name m = ''dev'') ms")
    (auto simp: get_cons_file_def mounts_first_wins [OF assms(1,2)] split: option.split vnode.split)

text \<open>The name space of a session: \<open>setupNamespace\<close>, then the mounts.\<close>

definition session_tree ::
    "'s tree_ops \<Rightarrow> remote \<Rightarrow> string \<Rightarrow> 'p list option \<Rightarrow> 'p list option \<Rightarrow> mount_spec list \<Rightarrow> nat \<Rightarrow> 's
     \<Rightarrow> 's" where
  "session_tree t cl addr fb_dumb fb0 ms root s =
     add_mounts t root ms (setup_namespace t cl addr fb_dumb fb0 root s)"

lemma session_tree_built:
  assumes "tree_laws t" and "is_dir t root s" and "kids t root s = Map.empty"
    and "r_stat cl ''dev/cons'' \<noteq> Inr ''fb''"
    and "s' = session_tree t cl addr fb_dumb fb0 ms root s"
  shows "(get_cons_file t root s' = Some f \<longleftrightarrow>
         r_stat cl ''dev/cons'' = Inr ''cons'' \<and> r_open cl ''dev/cons'' = Inr f)
    \<and> (addr \<noteq> [] \<and> (case fb_dumb of Some p \<Rightarrow> Some p | None \<Rightarrow> fb0) = Some pix \<longrightarrow>
         (\<exists>d b. kids t root s' ''dev'' = Some (DirV d) \<and> kids t d s' ''fb'' = Some (DirV b)
           \<and> kids t b s' = [''data'' \<mapsto> FbV (of_nat (length pix))]))
    \<and> kids t root s' name =
        (case kids t root (setup_namespace t cl addr fb_dumb fb0 root s) name of
           Some v \<Rightarrow> Some v
         | None \<Rightarrow> map_option MountV (find (\<lambda>m. ms_name m = name) ms))
    \<and> dom (kids t root (setup_namespace t cl addr fb_dumb fb0 root s)) \<subseteq> {''dev''}"
proof -
  let ?u = "setup_namespace t cl addr fb_dumb fb0 root s"
  note u = namespace_tree [OF assms(1-4) refl, where f = f and addr = addr and fb_dumb = fb_dumb
    and ?fb0.0 = fb0 and pix = pix]
  have c: "get_cons_file t root s' = get_cons_file t root ?u"
    unfolding assms(5) session_tree_def
    by (rule get_cons_file_mounts) (use u assms(1) in auto)
  have k: "kids t root s' n = (case kids t root ?u n of Some v \<Rightarrow> Some v
         | None \<Rightarrow> map_option MountV (find (\<lambda>m. ms_name m = n) ms))" for n
    unfolding assms(5) session_tree_def by (rule mounts_first_wins) (use u assms(1) in auto)
  have o: "d \<noteq> root \<Longrightarrow> kids t d s' = kids t d ?u" for d
    unfolding assms(5) session_tree_def by (rule add_mounts_other [OF assms(1)])
  show ?thesis
  proof (intro conjI impI)
    assume "addr \<noteq> [] \<and> (case fb_dumb of Some p \<Rightarrow> Some p | None \<Rightarrow> fb0) = Some pix"
    then obtain d b where "kids t root ?u ''dev'' = Some (DirV d)" "kids t d ?u ''fb'' = Some (DirV b)"
      "b \<noteq> root" "kids t b ?u = [''data'' \<mapsto> FbV (of_nat (length pix))]" "d \<noteq> root"
      using u by auto
    then show "\<exists>d b. kids t root s' ''dev'' = Some (DirV d) \<and> kids t d s' ''fb'' = Some (DirV b)
           \<and> kids t b s' = [''data'' \<mapsto> FbV (of_nat (length pix))]"
      using o k [of "''dev''"] by (intro exI [of _ d] exI [of _ b]) simp
  qed (use c k u in \<open>simp_all\<close>)
qed

lemma namespace_console:
  assumes "tree_laws t" and "is_dir t root s" and "kids t root s = Map.empty"
    and "r_stat cl ''dev/cons'' \<noteq> Inr ''fb''"
    and "s' = session_tree t cl addr fb_dumb fb0 ms root s"
  shows "get_cons_file t root s' \<noteq> None \<longleftrightarrow>
    r_stat cl ''dev/cons'' = Inr ''cons'' \<and> (\<exists>f. r_open cl ''dev/cons'' = Inr f)"
  using session_tree_built [OF assms] by auto

text \<open>Claim C30. The name space of a session, \<open>setupNamespace\<close> under an empty root and then the mounts.
  The console file found in it is the one opened on the client, exactly when the client's server
  could stat it, under the name \<open>cons\<close>, and open it; with a draw server configured and a
  framebuffer present, \<open>/dev/fb/data\<close> shows the size of the pixels, beside the console.
  \<open>setupNamespace\<close> puts nothing but \<open>/dev\<close> under the root, and a mount appears under its name
  exactly when it is the first of that name and the name is not taken by that \<open>/dev\<close> (the mounted
  directories existing, as \<open>-mount\<close> checked at the start); the others
  are dropped, and no mount changes the console or the framebuffer.\<close>

theorem namespace_built:
  assumes "tree_laws t" and "is_dir t root s" and "kids t root s = Map.empty"
    and "r_stat cl ''dev/cons'' \<noteq> Inr ''fb''"
    and "s' = session_tree t cl addr fb_dumb fb0 ms root s"
  shows "(get_cons_file t root s' = Some f \<longleftrightarrow>
         r_stat cl ''dev/cons'' = Inr ''cons'' \<and> r_open cl ''dev/cons'' = Inr f)
    \<and> (addr \<noteq> [] \<and> (case fb_dumb of Some p \<Rightarrow> Some p | None \<Rightarrow> fb0) = Some pix \<longrightarrow>
         (\<exists>d b. kids t root s' ''dev'' = Some (DirV d) \<and> kids t d s' ''fb'' = Some (DirV b)
           \<and> kids t b s' = [''data'' \<mapsto> FbV (of_nat (length pix))]))
    \<and> kids t root s' name =
        (case kids t root (setup_namespace t cl addr fb_dumb fb0 root s) name of
           Some v \<Rightarrow> Some v
         | None \<Rightarrow> map_option MountV (find (\<lambda>m. ms_name m = name) ms))
    \<and> dom (kids t root (setup_namespace t cl addr fb_dumb fb0 root s)) \<subseteq> {''dev''}"
  by (rule session_tree_built [OF assms])

text \<open>A tree of the library, concretely: a counter and a table.\<close>

type_synonym demo_tree = "nat \<times> (nat \<Rightarrow> string \<rightharpoonup> vnode)"

definition demo_ops :: "demo_tree tree_ops" where
  "demo_ops =
     \<lparr>new_dir = (\<lambda>name (n, tab). (n, Suc n, tab(n := Map.empty))),
      add_child = (\<lambda>d name v (n, tab).
        (n, tab(d := (if tab d name = None then (tab d)(name \<mapsto> v) else tab d)))),
      kids = (\<lambda>d (n, tab). tab d),
      is_dir = (\<lambda>d (n, tab). d < n)\<rparr>"

lemma demo_laws: "tree_laws demo_ops"
  by (auto simp: tree_laws_def demo_ops_def)

definition demo_remote :: remote where
  "demo_remote = \<lparr>r_stat = (\<lambda>p. if p = ''dev/cons'' then Inr ''cons'' else Inl (Err ''no file'')),
     r_open = (\<lambda>p. Inr 5)\<rparr>"

definition demo_root :: demo_tree where "demo_root = (1, \<lambda>_. Map.empty)"

lemma demo_root_ok: "is_dir demo_ops 0 demo_root" "kids demo_ops 0 demo_root = Map.empty"
  by (simp_all add: demo_ops_def demo_root_def)

theorem namespace_built_witness:
  "let ms = [\<lparr>ms_name = ''dev'', ms_path = ''/x''\<rparr>, \<lparr>ms_name = ''a'', ms_path = ''/y''\<rparr>,
             \<lparr>ms_name = ''a'', ms_path = ''/z''\<rparr>];
       s' = session_tree demo_ops demo_remote '':17029'' None (Some [1, 2, 3 :: u8]) ms 0 demo_root
   in get_cons_file demo_ops 0 s' = Some 5
      \<and> kids demo_ops 0 s' ''a'' = Some (MountV \<lparr>ms_name = ''a'', ms_path = ''/y''\<rparr>)"
proof -
  have "r_stat demo_remote ''dev/cons'' \<noteq> Inr ''fb''" by (simp add: demo_remote_def)
  from namespace_built [OF demo_laws demo_root_ok this refl, of "'':17029''" None "Some [1, 2, 3 :: u8]"
      "[\<lparr>ms_name = ''dev'', ms_path = ''/x''\<rparr>, \<lparr>ms_name = ''a'', ms_path = ''/y''\<rparr>,
        \<lparr>ms_name = ''a'', ms_path = ''/z''\<rparr>]" 5 "[1, 2, 3 :: u8]" "''a''"]
  show ?thesis
    by (auto simp: demo_remote_def Let_def domIff subset_iff split: option.splits)
qed

lemma mounts_first_wins_example:
  "kids demo_ops 0 (add_mounts demo_ops 0 [\<lparr>ms_name = ''a'', ms_path = ''/x''\<rparr>,
      \<lparr>ms_name = ''a'', ms_path = ''/y''\<rparr>] demo_root) ''a''
    = Some (MountV \<lparr>ms_name = ''a'', ms_path = ''/x''\<rparr>)"
  using mounts_first_wins [OF demo_laws demo_root_ok(1), of "[\<lparr>ms_name = ''a'', ms_path = ''/x''\<rparr>,
      \<lparr>ms_name = ''a'', ms_path = ''/y''\<rparr>]" "''a''"] demo_root_ok(2)
  by simp

text \<open>An error of the remote file reaches the reader of the console proxy; the draw proxy returns what
  was read before it, which with nothing read is an end of file.\<close>

lemma proxy_read_errors:
  assumes "int (unat count) \<le> max_alloc" and "rd (sint offset) (unat count) = (bs, Some e)" and "e \<noteq> EOF"
  shows "proxy_read rd offset count = Ret (Inl e)" and "draw_proxy_read rd offset count = Ret (Inr bs)"
  using assms by (auto simp: proxy_read_def draw_proxy_read_def)

end
