(* ===== verification/Rcpud.thy ===== *)
theory Rcpud
  imports Session Tls_Psk Namespace
begin

text \<open>
  The daemon as a whole: \<open>main\<close> of \<open>cmd/rcpud/main.go\<close>, and a session with its TLS upgrade
  (\<open>Tls_Psk\<close>) and its name space (\<open>Namespace\<close>) in place of the answers that \<open>Session\<close> leaves open.

  Sessions of a listening daemon run in goroutines of their own and share no state but the log, so
  each is a run of \<open>handleRcpu\<close> on its own connection. A panic in one, the outcome \<open>Crashed\<close>, ends
  the process and with it the daemon: no connection is served any more. The list of sessions is
  the schedule in which each ends before the next connection is accepted.
\<close>

section \<open>A session with its parts\<close>

record 's client_side =
  cs_world :: world
  cs_ssl :: ossl
  cs_plain :: "string \<Rightarrow> char conn \<Rightarrow> char conn"    \<comment> \<open>the connection OpenSSL decrypts\<close>
  cs_conn :: "char conn"
  cs_remote :: remote
  cs_tree :: "'s tree_ops"
  cs_root :: nat
  cs_state :: 's
  cs_fb_dumb :: "bytes option"
  cs_fb0 :: "bytes option"

definition upgrade ::
    "conn_kind \<Rightarrow> ossl \<Rightarrow> (string \<Rightarrow> char conn \<Rightarrow> char conn) \<Rightarrow> string \<Rightarrow> char conn
     \<Rightarrow> (string + char conn) go" where
  "upgrade kind ssl plain_of sec c =
     go_bind (fst (wrap_tls_psk kind ssl sec)) (\<lambda>r.
       case r of Inl e \<Rightarrow> Ret (Inl e) | Inr u \<Rightarrow> Ret (Inr (plain_of sec c)))"

definition session_ns :: "'s client_side \<Rightarrow> string \<Rightarrow> mount_spec list \<Rightarrow> 's" where
  "session_ns x drawsrv_addr mounts =
     session_tree (cs_tree x) (cs_remote x) drawsrv_addr (cs_fb_dumb x) (cs_fb0 x) mounts (cs_root x)
       (cs_state x)"

definition session_world :: "conn_kind \<Rightarrow> string \<Rightarrow> mount_spec list \<Rightarrow> 's client_side \<Rightarrow> world" where
  "session_world kind drawsrv_addr mounts x =
     (cs_world x)\<lparr>w_tls := upgrade kind (cs_ssl x) (cs_plain x),
       w_drawsrv := drawsrv_addr, w_fb_dumb := (cs_fb_dumb x \<noteq> None), w_fb0 := (cs_fb0 x \<noteq> None),
       w_cons := get_cons_file (cs_tree x) (cs_root x) (session_ns x drawsrv_addr mounts) \<noteq> None\<rparr>"

definition session ::
    "conn_kind \<Rightarrow> bool \<Rightarrow> string \<Rightarrow> string \<Rightarrow> mount_spec list \<Rightarrow> 's client_side \<Rightarrow> ev list \<times> outcome" where
  "session kind no_strip drawsrv_addr domain mounts x =
     handle_rcpu (session_world kind drawsrv_addr mounts x) no_strip domain mounts (cs_conn x)"

section \<open>The main program\<close>

record config =
  cfg_ns :: string
  cfg_set_ns :: bool        \<comment> \<open>\<open>NAMESPACE\<close> was put into the environment\<close>
  cfg_warn :: bool
  cfg_dom :: string

definition main_env :: "(string \<Rightarrow> string) \<Rightarrow> (string \<Rightarrow> bool) \<Rightarrow> config" where
  "main_env env stat =
     (let unset = (env ''NAMESPACE'' = []);
          ns_path = (if unset then ''/tmp/ns.'' @ env ''USER'' else env ''NAMESPACE'')
      in \<lparr>cfg_ns = ns_path, cfg_set_ns = unset,
          cfg_warn = (\<not> stat (path_join [ns_path, ''factotum''])),
          cfg_dom = (if env ''AUTH_DOM'' = [] then ''rentonsoftworks.coin'' else env ''AUTH_DOM'')\<rparr>)"

record flags =
  fl_listen :: string
  fl_no_strip :: bool
  fl_drawsrv :: string
  fl_mounts :: "mount_spec list"

text \<open>What \<open>Accept\<close> returns, one after the other; an error is logged and passed over. The panic of
  a session's goroutine is the last thing the process does.\<close>

fun accepted_sessions ::
    "('x \<Rightarrow> ev list \<times> outcome) \<Rightarrow> (string + 'x) list \<Rightarrow> (ev list \<times> outcome) list" where
  "accepted_sessions f [] = []"
| "accepted_sessions f (Inl e # as) = accepted_sessions f as"
| "accepted_sessions f (Inr x # as) =
     f x # (if snd (f x) = Crashed then [] else accepted_sessions f as)"

text \<open>\<open>main\<close>: the sessions it runs, or the error it dies of.\<close>

definition rcpud_main ::
    "flags \<Rightarrow> config \<Rightarrow> string option \<Rightarrow> (string + 's client_side) list \<Rightarrow> 's client_side
     \<Rightarrow> string + (ev list \<times> outcome) list" where
  "rcpud_main fl cfg listen_err accepts stdio =
     (let run = (\<lambda>kind. session kind (fl_no_strip fl) (fl_drawsrv fl) (cfg_dom cfg) (fl_mounts fl)) in
      if fl_listen fl \<noteq> [] then
        (case listen_err of
           Some e \<Rightarrow> Inl e
         | None \<Rightarrow> Inr (accepted_sessions (run Tcp) accepts))
      else Inr [run OtherConn stdio])"

section \<open>Properties\<close>

lemma accepted_sessions_append:
  "\<forall>r \<in> set (accepted_sessions f as). snd r \<noteq> Crashed \<Longrightarrow>
   accepted_sessions f (as @ bs) = accepted_sessions f as @ accepted_sessions f bs"
  by (induction f as rule: accepted_sessions.induct) auto

lemma accepted_sessions_crash:
  "r \<in> set (butlast (accepted_sessions f as)) \<Longrightarrow> snd r \<noteq> Crashed"
  by (induction f as rule: accepted_sessions.induct) (auto split: if_splits)

lemma upgrade_other: "upgrade OtherConn ssl pl sec c = Ret (Inl err_invalid)"
  by (simp add: upgrade_def wrap_tls_psk_def)

lemma handle_rcpu_no_tls:
  assumes "\<And>s c. w_tls w s c = Ret (Inl e)"
  shows "\<exists>out. handle_rcpu w ns domain mounts c0 = ([CloseConn], out)
    \<and> out \<in> range NoChoice \<union> range NoAuth \<union> {NoTls e}"
  using proxy_auth_returns [of "key_spec domain" "w_factotum w"]
  by (auto simp: handle_rcpu_def assms Let_def split: prod.split sum.split go.split)
    (metis fst_conv)+

text \<open>Claim C10. Started without \<open>-l\<close>, as the flag's help says one does for standard input and output,
  the daemon never gets anyone a shell: the TLS upgrade refuses a connection that is not TCP, so
  the one session ends before it at the latest there, with nothing but the closing of the
  connection as its effect.\<close>

theorem stdio_session_ends_at_tls:
  assumes "fl_listen fl = []" and "rcpud_main fl cfg listen_err accepts stdio = Inr rs"
  shows "\<exists>out. rs = [([CloseConn], out)]
    \<and> out \<in> range NoChoice \<union> range NoAuth \<union> {NoTls err_invalid}"
proof -
  have "w_tls (session_world OtherConn (fl_drawsrv fl) (fl_mounts fl) stdio) s c = Ret (Inl err_invalid)" for s c
    by (simp add: session_world_def upgrade_other)
  from handle_rcpu_no_tls [of "session_world OtherConn (fl_drawsrv fl) (fl_mounts fl) stdio", OF this]
  show ?thesis using assms by (fastforce simp: rcpud_main_def session_def)
qed

definition demo_side :: "fac_reply list \<Rightarrow> demo_tree client_side" where
  "demo_side rs =
     \<lparr>cs_world = demo_world\<lparr>w_factotum := Inr rs\<rparr>, cs_ssl = demo_ossl,
      cs_plain = (\<lambda>s c. demo_conn [''0'' @ ''\<newline>'']), cs_conn = demo_client,
      cs_remote = demo_remote, cs_tree = demo_ops, cs_root = 0, cs_state = demo_root,
      cs_fb_dumb = None, cs_fb0 = None\<rparr>"

definition demo_flags :: flags where
  "demo_flags = \<lparr>fl_listen = [], fl_no_strip = False, fl_drawsrv = [], fl_mounts = []\<rparr>"

definition demo_config :: config where
  "demo_config = \<lparr>cfg_ns = ''/tmp/ns.x'', cfg_set_ns = True, cfg_warn = False, cfg_dom = ''d''\<rparr>"

theorem stdio_session_ends_at_tls_witness:
  "\<exists>out. rcpud_main demo_flags demo_config None [] (demo_side []) = Inr [([CloseConn], out)]"
proof -
  have l: "fl_listen demo_flags = []" by (simp add: demo_flags_def)
  then obtain rs where "rcpud_main demo_flags demo_config None [] (demo_side []) = Inr rs"
    by (simp add: rcpud_main_def)
  with stdio_session_ends_at_tls [OF l this] show ?thesis by auto
qed

text \<open>A session whose factotum answers with an empty identity.\<close>

lemma empty_authinfo_session:
  assumes "w_factotum (cs_world x) = Inr [Reply ''ok'', Reply ''done'', Reply ''ok'']"
    and "pending (cs_conn x) = choice @ nul # later" and "nul \<notin> set choice"
    and "length domain \<le> 3900" and "o_file (cs_ssl x) = None" and "o_malloc (cs_ssl x)"
  shows "session Tcp no_strip addr domain mounts x = ([CloseConn], Crashed)"
proof -
  let ?w = "session_world Tcp addr mounts x"
  have "pending (snd (conn_write (offer domain) (cs_conn x))) = choice @ nul # later"
    using assms(2) by (simp add: frame_simps)
  from read_choice_spec [OF this assms(3), of "[]"]
  obtain c1 where n: "negotiate_protocol domain (cs_conn x) = (Inr choice, c1)"
    by (auto simp: negotiate_protocol_def Let_def)
  have "w_factotum ?w = Inr [Reply ''ok'', Reply ''done'', Reply ''ok'']"
    using assms(1) by (simp add: session_world_def)
  moreover have "length (key_spec domain) \<le> 4000" using assms(4) by (simp add: key_spec_def)
  ultimately obtain log where p: "proxy_auth (key_spec domain) (w_factotum ?w) c1
      = (Ret (Inr \<lparr>cuid = [], suid = [], cap = [], secret = []\<rparr>), log, c1)"
    using proxy_auth_empty_reply [of "key_spec domain" c1] by auto
  have "w_tls ?w [] c1 = Panic"
    using assms(5,6) by (simp add: session_world_def upgrade_def wrap_tls_psk_def)
  then show ?thesis by (simp add: session_def handle_rcpu_def n p)
qed



text \<open>What the pipes of a session need.\<close>

lemma launch_shell_pipes:
  "(ConsToPty \<in> set (launch_shell w ns mk dir) \<longleftrightarrow>
     RelayNotes \<in> set (launch_shell w ns mk dir) \<and> w_cons w)
   \<and> (PtyToCons b \<in> set (launch_shell w ns mk dir) \<longleftrightarrow>
     b = (\<not> ns) \<and> RelayNotes \<in> set (launch_shell w ns mk dir) \<and> w_cons w)"
proof (cases rule: launch_shell_cases [of w ns mk dir])
  case (1 es)
  then show ?thesis using open_pty_events [of w]
    by (auto simp: run_shell_direct_def Let_def)
next
  case (2 name es ts)
  have "ConsToPty \<notin> set es" "RelayNotes \<notin> set es" "ConsToPty \<notin> set ts" "RelayNotes \<notin> set ts"
    "PtyToCons b \<notin> set es" "PtyToCons b \<notin> set ts"
    using open_pty_events [OF 2(1)] try_slave_events [OF 2(2)] by auto
  then show ?thesis using 2(3) by (auto simp: run_shell_pty_def)
next
  case (3 name es ts)
  have "ConsToPty \<notin> set es" "RelayNotes \<notin> set es" "ConsToPty \<notin> set ts" "RelayNotes \<notin> set ts"
    "PtyToCons b \<notin> set es" "PtyToCons b \<notin> set ts"
    using open_pty_events [OF 3(1)] try_slave_events [OF 3(2)] by auto
  then show ?thesis using 3(3) by (auto simp: run_shell_direct_def Let_def)
qed

lemma serve_user_pipes:
  assumes "serve_user w ns mounts user cenv = (es, out)"
  shows "(ConsToPty \<in> set es \<longleftrightarrow> RelayNotes \<in> set es \<and> w_cons w)
    \<and> (PtyToCons b \<in> set es \<longleftrightarrow> b = (\<not> ns) \<and> RelayNotes \<in> set es \<and> w_cons w)"
proof (cases rule: serve_user_cases [of w ns mounts user cenv])
  case (4 sp hname)
  then show ?thesis using assms by (auto simp: launch_shell_pipes dest: open_session_fb_events accept_local_events)
qed (use assms in \<open>auto dest: open_session_fb_events accept_local_events\<close>)

lemma handle_rcpu_pipes:
  assumes "handle_rcpu w ns domain mounts c0 = (es, out)"
  shows "(ConsToPty \<in> set es \<longleftrightarrow> RelayNotes \<in> set es \<and> w_cons w)
    \<and> (PtyToCons b \<in> set es \<longleftrightarrow> b = (\<not> ns) \<and> RelayNotes \<in> set es \<and> w_cons w)"
  by (cases rule: handle_rcpu_cases [OF assms]) (auto simp: serve_user_pipes)



end
