(* ===== verification/Host_Files.thy ===== *)
theory Host_Files
  imports Go_Base
begin

text \<open>
  The files of the host as \<open>os.File\<close> shows them: contents by inode (\<open>None\<close> for a directory), a
  table of open descriptors, and \<open>ReadAt\<close>, \<open>WriteAt\<close> and \<open>Close\<close> on a descriptor. What a path
  resolves to is the business of the operating system: \<open>os.OpenFile\<close> takes it as an argument.
  A write finds room; its other failures are modelled.
\<close>

record host =
  h_data :: "nat \<Rightarrow> bytes option"
  h_fds :: "nat \<rightharpoonup> nat \<times> bool"     \<comment> \<open>inode, opened for writing\<close>
  h_next :: nat

definition file_open ::
    "(string \<Rightarrow> bool \<Rightarrow> goerr + nat) \<Rightarrow> string \<Rightarrow> bool \<Rightarrow> host \<Rightarrow> (goerr + nat) \<times> host" where
  "file_open resolve path rdwr h =
     (case resolve path rdwr of
        Inl e \<Rightarrow> (Inl e, h)
      | Inr ino \<Rightarrow>
          (Inr (h_next h),
           h\<lparr>h_fds := (h_fds h)(h_next h \<mapsto> (ino, rdwr)), h_next := Suc (h_next h)\<rparr>))"

definition neg_offset :: goerr where "neg_offset = Err ''negative offset''"
definition closed_file :: goerr where "closed_file = Err ''file already closed''"
definition is_a_dir :: goerr where "is_a_dir = Err ''is a directory''"
definition bad_fd :: goerr where "bad_fd = Err ''bad file descriptor''"

text \<open>\<open>ReadAt\<close> reads until the buffer is full or the file ends, and then says \<open>EOF\<close>.\<close>

definition file_read_at :: "nat \<Rightarrow> int \<Rightarrow> nat \<Rightarrow> host \<Rightarrow> bytes \<times> goerr option" where
  "file_read_at fd off n h =
     (if off < 0 then ([], Some neg_offset)
      else if n = 0 then ([], None)
      else (case h_fds h fd of
              None \<Rightarrow> ([], Some closed_file)
            | Some (ino, w) \<Rightarrow>
                (case h_data h ino of
                   None \<Rightarrow> ([], Some is_a_dir)
                 | Some d \<Rightarrow>
                     let bs = take n (drop (nat off) d)
                     in (bs, if length bs < n then Some EOF else None))))"

text \<open>A write past the end fills the gap with zeros.\<close>

definition write_bytes :: "bytes \<Rightarrow> nat \<Rightarrow> bytes \<Rightarrow> bytes" where
  "write_bytes d off bs =
     take off d @ replicate (off - length d) 0 @ bs @ drop (off + length bs) d"

definition file_write_at :: "nat \<Rightarrow> int \<Rightarrow> bytes \<Rightarrow> host \<Rightarrow> (nat \<times> goerr option) \<times> host" where
  "file_write_at fd off bs h =
     (if off < 0 then ((0, Some neg_offset), h)
      else if bs = [] then ((0, None), h)
      else (case h_fds h fd of
              None \<Rightarrow> ((0, Some closed_file), h)
            | Some (ino, w) \<Rightarrow>
                (case h_data h ino of
                   None \<Rightarrow> ((0, Some bad_fd), h)
                 | Some d \<Rightarrow>
                     if \<not> w then ((0, Some bad_fd), h)
                     else ((length bs, None),
                           h\<lparr>h_data := (h_data h)(ino \<mapsto> write_bytes d (nat off) bs)\<rparr>))))"

definition file_close :: "nat \<Rightarrow> host \<Rightarrow> goerr option \<times> host" where
  "file_close fd h =
     (if h_fds h fd = None then (Some closed_file, h)
      else (None, h\<lparr>h_fds := (h_fds h)(fd := None)\<rparr>))"

lemma length_write_bytes: "length (write_bytes d off bs) = max (length d) (off + length bs)"
  by (auto simp: write_bytes_def)

text \<open>What was written is read back, and nothing before it changes.\<close>

lemma read_write_bytes: "take (length bs) (drop off (write_bytes d off bs)) = bs"
proof -
  have "length (take off d @ replicate (off - length d) 0) = off" by (simp add: min_def)
  then have "drop off ((take off d @ replicate (off - length d) 0) @ bs @ drop (off + length bs) d)
      = bs @ drop (off + length bs) d"
    by (simp only: drop_append) simp
  then show ?thesis by (simp add: write_bytes_def)
qed

lemma take_write_bytes: "n \<le> off \<Longrightarrow> n \<le> length d \<Longrightarrow> take n (write_bytes d off bs) = take n d"
  by (simp add: write_bytes_def min_def)

end
