(* ===== verification/Mount.thy ===== *)
theory Mount
  imports Host_Files Go_Path Simulation
begin

text \<open>
  The directories that the option \<open>-mount\<close> exports (\<open>cmd/rcpud/mount.go\<close>): nodes made from what the
  host says of a path, and files whose 9P operations go to an open descriptor of the host.

  The host's directories are arguments: \<open>stat\<close> (\<open>os.Stat\<close>), \<open>readdir\<close> (\<open>os.ReadDir\<close>, each entry with
  its \<open>Info\<close>) and \<open>resolve\<close> (which file a path opens, or why not). \<open>dmdir\<close> and \<open>owrite\<close> are the
  constants \<open>DMDIR\<close> and \<open>Owrite\<close> of the 9P library, \<open>now\<close> the time. A Go \<open>map[uint64]*os.File\<close> is a
  partial function from fids to descriptors.
\<close>

section \<open>Nodes\<close>

record file_info =
  fi_name :: string
  fi_perm :: u32
  fi_mtime :: int        \<comment> \<open>nanoseconds\<close>
  fi_size :: int

record p9_stat =
  st_name :: string
  st_uid :: string
  st_gid :: string
  st_mode :: u32
  st_muid :: string
  st_mtime :: u32
  st_atime :: u32
  st_length :: u64
  st_qtype :: u8
  st_qvers :: u32
  st_qpath :: u64

record dir_entry =
  de_name :: string
  de_dir :: bool
  de_info :: "goerr + file_info"

record mount_dir =
  md_stat :: p9_stat
  md_root :: string

record mount_file =
  mf_stat :: p9_stat
  mf_path :: string
  mf_opens :: "nat \<rightharpoonup> nat"

text \<open>A \<open>*mountDir\<close> may be nil.\<close>

datatype node = DirNode "mount_dir option" | FileNode mount_file

definition unix_sec :: "int \<Rightarrow> u32" where
  "unix_sec ns = word_of_int (ns div 1000000000)"

definition new_mount_dir ::
    "(string \<Rightarrow> goerr + file_info) \<Rightarrow> u32 \<Rightarrow> int \<Rightarrow> string \<Rightarrow> string \<Rightarrow> string \<Rightarrow> string
     \<Rightarrow> mount_dir option" where
  "new_mount_dir stat dmdir now path name uid gid =
     (case stat path of
        Inl e \<Rightarrow> None
      | Inr fi \<Rightarrow>
          let mode = fi_perm fi OR dmdir in
          Some \<lparr>md_stat =
                  \<lparr>st_name = name, st_uid = uid, st_gid = gid, st_mode = mode, st_muid = uid,
                   st_mtime = unix_sec (fi_mtime fi), st_atime = unix_sec now, st_length = 0,
                   st_qtype = ucast (drop_bit 24 mode), st_qvers = 0,
                   st_qpath = word_of_int (fi_mtime fi)\<rparr>,
                md_root = path\<rparr>)"

definition new_mount_file :: "int \<Rightarrow> string \<Rightarrow> file_info \<Rightarrow> string \<Rightarrow> string \<Rightarrow> mount_file" where
  "new_mount_file now path fi uid gid =
     \<lparr>mf_stat =
        \<lparr>st_name = fi_name fi, st_uid = uid, st_gid = gid, st_mode = fi_perm fi, st_muid = uid,
         st_mtime = unix_sec (fi_mtime fi), st_atime = unix_sec now,
         st_length = word_of_int (fi_size fi), st_qtype = ucast (drop_bit 24 (fi_perm fi)),
         st_qvers = 0, st_qpath = word_of_int (fi_mtime fi)\<rparr>,
      mf_path = path, mf_opens = Map.empty\<rparr>"

text \<open>\<open>Children\<close>: \<open>None\<close> is the nil map of an unreadable directory. An entry that is not a directory
  (a symbolic link too) becomes a file; one whose \<open>Info\<close> fails is left out.\<close>

definition add_entry ::
    "(string \<Rightarrow> goerr + file_info) \<Rightarrow> u32 \<Rightarrow> int \<Rightarrow> mount_dir \<Rightarrow> dir_entry
     \<Rightarrow> (string \<rightharpoonup> node) \<Rightarrow> string \<rightharpoonup> node" where
  "add_entry stat dmdir now d e m =
     (let full_path = path_join [md_root d, de_name e];
          uid = st_uid (md_stat d); gid = st_gid (md_stat d)
      in case de_info e of
           Inl err \<Rightarrow> m
         | Inr fi \<Rightarrow>
             m(de_name e \<mapsto>
               (if de_dir e
                then DirNode (new_mount_dir stat dmdir now full_path (fi_name fi) uid gid)
                else FileNode (new_mount_file now full_path fi uid gid))))"

definition children ::
    "(string \<Rightarrow> goerr + dir_entry list) \<Rightarrow> (string \<Rightarrow> goerr + file_info) \<Rightarrow> u32 \<Rightarrow> int
     \<Rightarrow> mount_dir \<Rightarrow> (string \<rightharpoonup> node) option" where
  "children readdir stat dmdir now d =
     (case readdir (md_root d) of
        Inl e \<Rightarrow> None
      | Inr es \<Rightarrow> Some (fold (add_entry stat dmdir now d) es Map.empty))"

text \<open>\<open>Stat\<close> of a node: a nil directory is a nil dereference.\<close>

definition node_stat :: "node \<Rightarrow> p9_stat go" where
  "node_stat nd =
     (case nd of DirNode None \<Rightarrow> Panic | DirNode (Some d) \<Rightarrow> Ret (md_stat d)
      | FileNode f \<Rightarrow> Ret (mf_stat f))"

section \<open>Files\<close>

definition mount_open ::
    "(string \<Rightarrow> bool \<Rightarrow> goerr + nat) \<Rightarrow> u8 \<Rightarrow> nat \<Rightarrow> u8 \<Rightarrow> mount_file \<times> host
     \<Rightarrow> goerr option \<times> mount_file \<times> host" where
  "mount_open resolve owrite fid mode s =
     (let (f, h) = s; rdwr = (mode AND owrite \<noteq> 0) in
      case file_open resolve (mf_path f) rdwr h of
        (Inl e, h1) \<Rightarrow> (Some e, f, h1)
      | (Inr fd, h1) \<Rightarrow> (None, f\<lparr>mf_opens := (mf_opens f)(fid \<mapsto> fd)\<rparr>, h1))"

definition not_open :: goerr where "not_open = Err ''file not open''"

definition mount_read :: "nat \<Rightarrow> u64 \<Rightarrow> u64 \<Rightarrow> mount_file \<times> host \<Rightarrow> (goerr + bytes) go" where
  "mount_read fid offset count s =
     (let (f, h) = s in
      case mf_opens f fid of
        None \<Rightarrow> Ret (Inl not_open)
      | Some fd \<Rightarrow>
          if int (unat count) > max_alloc then Panic
          else (case file_read_at fd (sint offset) (unat count) h of
                  (bs, err) \<Rightarrow>
                    if bs \<noteq> [] then Ret (Inr bs)
                    else (case err of Some e \<Rightarrow> Ret (Inl e) | None \<Rightarrow> Ret (Inr []))))"

definition mount_write ::
    "nat \<Rightarrow> u64 \<Rightarrow> bytes \<Rightarrow> mount_file \<times> host \<Rightarrow> (u32 \<times> goerr option) \<times> mount_file \<times> host" where
  "mount_write fid offset data s =
     (let (f, h) = s in
      case mf_opens f fid of
        None \<Rightarrow> ((0, Some not_open), f, h)
      | Some fd \<Rightarrow>
          (case file_write_at fd (sint offset) data h of
             ((n, err), h1) \<Rightarrow> ((of_nat n, err), f, h1)))"

definition mount_close :: "nat \<Rightarrow> mount_file \<times> host \<Rightarrow> goerr option \<times> mount_file \<times> host" where
  "mount_close fid s =
     (let (f, h) = s in
      case mf_opens f fid of
        None \<Rightarrow> (None, f, h)
      | Some fd \<Rightarrow>
          (case file_close fd h of
             (err, h1) \<Rightarrow> (err, f\<lparr>mf_opens := (mf_opens f)(fid := None)\<rparr>, h1)))"

text \<open>The operations on one file, and what other programs do to its contents.\<close>

datatype mop =
    MOpen nat u8 | MRead nat u64 u64 | MWrite nat u64 bytes | MClose nat | MOther bytes

datatype mres =
    Opened "goerr option" | Got "(goerr + bytes) go" | Wrote u32 "goerr option"
  | Closed "goerr option" | Changed

fun mount_step ::
    "(string \<Rightarrow> bool \<Rightarrow> goerr + nat) \<Rightarrow> u8 \<Rightarrow> nat \<Rightarrow> mop \<Rightarrow> mount_file \<times> host
     \<Rightarrow> mres \<times> mount_file \<times> host" where
  "mount_step rs ow ino (MOpen fid mode) s = (let (e, s1) = mount_open rs ow fid mode s in (Opened e, s1))"
| "mount_step rs ow ino (MRead fid off n) s = (Got (mount_read fid off n s), s)"
| "mount_step rs ow ino (MWrite fid off bs) s =
     (let ((n, e), s1) = mount_write fid off bs s in (Wrote n e, s1))"
| "mount_step rs ow ino (MClose fid) s = (let (e, s1) = mount_close fid s in (Closed e, s1))"
| "mount_step rs ow ino (MOther bs) (f, h) =
     (Changed, f, (case h_data h ino of
        None \<Rightarrow> h | Some d \<Rightarrow> h\<lparr>h_data := (h_data h)(ino \<mapsto> bs)\<rparr>))"


section \<open>The file a client sees\<close>

text \<open>The abstract file: its bytes (\<open>None\<close>: a directory), whether it can be opened for reading
  (\<open>False\<close>) or for both (\<open>True\<close>), and which fids have it open and how.\<close>

record served =
  sv_data :: "bytes option"
  sv_access :: "bool \<Rightarrow> goerr option"
  sv_open :: "nat \<rightharpoonup> bool"

definition served_read :: "nat \<Rightarrow> u64 \<Rightarrow> u64 \<Rightarrow> served \<Rightarrow> (goerr + bytes) go" where
  "served_read fid offset count s =
     (if sv_open s fid = None then Ret (Inl not_open)
      else if int (unat count) > max_alloc then Panic
      else if sint offset < 0 then Ret (Inl neg_offset)
      else if count = 0 then Ret (Inr [])
      else (case sv_data s of
              None \<Rightarrow> Ret (Inl is_a_dir)
            | Some d \<Rightarrow>
                if length d \<le> unat offset then Ret (Inl EOF)
                else Ret (Inr (take (unat count) (drop (unat offset) d)))))"

fun served_step :: "u8 \<Rightarrow> mop \<Rightarrow> served \<Rightarrow> mres \<times> served" where
  "served_step ow (MOpen fid mode) s =
     (let w = (mode AND ow \<noteq> 0) in
      case sv_access s w of
        Some e \<Rightarrow> (Opened (Some e), s)
      | None \<Rightarrow> (Opened None, s\<lparr>sv_open := (sv_open s)(fid \<mapsto> w)\<rparr>))"
| "served_step ow (MRead fid off n) s = (Got (served_read fid off n s), s)"
| "served_step ow (MWrite fid off bs) s =
     (case sv_open s fid of
        None \<Rightarrow> (Wrote 0 (Some not_open), s)
      | Some w \<Rightarrow>
          if sint off < 0 then (Wrote 0 (Some neg_offset), s)
          else if bs = [] then (Wrote 0 None, s)
          else (case sv_data s of
                  None \<Rightarrow> (Wrote 0 (Some bad_fd), s)
                | Some d \<Rightarrow>
                    if \<not> w then (Wrote 0 (Some bad_fd), s)
                    else (Wrote (of_nat (length bs)) None,
                          s\<lparr>sv_data := Some (write_bytes d (unat off) bs)\<rparr>)))"
| "served_step ow (MClose fid) s = (Closed None, s\<lparr>sv_open := (sv_open s)(fid := None)\<rparr>)"
| "served_step ow (MOther bs) s = (Changed, s\<lparr>sv_data := map_option (\<lambda>_. bs) (sv_data s)\<rparr>)"

definition open_modes :: "(nat \<rightharpoonup> nat) \<Rightarrow> (nat \<rightharpoonup> nat \<times> bool) \<Rightarrow> nat \<rightharpoonup> bool" where
  "open_modes opens fds =
     (\<lambda>fid. case opens fid of None \<Rightarrow> None | Some fd \<Rightarrow> map_option snd (fds fd))"

definition served_of ::
    "(string \<Rightarrow> bool \<Rightarrow> goerr + nat) \<Rightarrow> nat \<Rightarrow> mount_file \<times> host \<Rightarrow> served" where
  "served_of rs ino s =
     (let (f, h) = s in
      \<lparr>sv_data = h_data h ino,
       sv_access = (\<lambda>w. case rs (mf_path f) w of Inl e \<Rightarrow> Some e | Inr _ \<Rightarrow> None),
       sv_open = open_modes (mf_opens f) (h_fds h)\<rparr>)"

text \<open>Every open fid has a descriptor of its own, which is open on this file.\<close>

definition file_ok ::
    "(string \<Rightarrow> bool \<Rightarrow> goerr + nat) \<Rightarrow> nat \<Rightarrow> mount_file \<times> host \<Rightarrow> bool" where
  "file_ok rs ino s \<longleftrightarrow>
     (let (f, h) = s in
      (\<forall>fid fd. mf_opens f fid = Some fd \<longrightarrow> fd < h_next h \<and> (\<exists>w. h_fds h fd = Some (ino, w)))
      \<and> (\<forall>fid gid fd. mf_opens f fid = Some fd \<longrightarrow> mf_opens f gid = Some fd \<longrightarrow> fid = gid)
      \<and> (\<forall>w i. rs (mf_path f) w = Inr i \<longrightarrow> i = ino))"

lemma nonneg_offset: "\<not> sint (off :: u64) < 0 \<Longrightarrow> nat (sint off) = unat off"
proof -
  assume n: "\<not> sint off < 0"
  have "sint off < 2 ^ 63" using sint_lt [of off] by simp
  then have "take_bit 64 (sint off) = sint off" using n by (simp add: take_bit_int_eq_self)
  then have "uint off = sint off" using uint_sint [of off] by simp
  then show ?thesis by (metis unat_eq_nat_uint)
qed

lemma file_ok_open:
  assumes "file_ok rs ino (f, h)" and "mf_opens f fid = Some fd"
  obtains w where "h_fds h fd = Some (ino, w)"
  using assms unfolding file_ok_def by fastforce

lemma open_modes_none: "opens fid = None \<Longrightarrow> open_modes opens fds fid = None"
  by (simp add: open_modes_def)

lemma open_modes_some: "opens fid = Some fd \<Longrightarrow> fds fd = Some (ino, w) \<Longrightarrow> open_modes opens fds fid = Some w"
  by (simp add: open_modes_def)

lemma open_modes_open:
  assumes "\<And>g. opens g \<noteq> Some fd"
  shows "open_modes (opens(fid \<mapsto> fd)) (fds(fd \<mapsto> (ino, w))) = (open_modes opens fds)(fid \<mapsto> w)"
  using assms by (auto simp: open_modes_def fun_eq_iff split: option.splits)

lemma open_modes_close:
  assumes "\<And>g. opens g = Some fd \<Longrightarrow> g = fid"
  shows "open_modes (opens(fid := None)) (fds(fd := None)) = (open_modes opens fds)(fid := None)"
  using assms by (auto simp: open_modes_def fun_eq_iff split: option.splits)

lemma mount_read_sim:
  assumes "file_ok rs ino (f, h)"
  shows "mount_read fid off n (f, h) = served_read fid off n (served_of rs ino (f, h))"
proof (cases "mf_opens f fid")
  case None
  then show ?thesis by (simp add: mount_read_def served_read_def served_of_def open_modes_none)
next
  case (Some fd)
  with assms obtain w where fd: "h_fds h fd = Some (ino, w)" by (rule file_ok_open)
  have "n = 0 \<longleftrightarrow> unat n = 0" by (simp add: unat_eq_zero)
  then show ?thesis
    using Some fd nonneg_offset [of off]
    by (auto simp: mount_read_def served_read_def served_of_def file_read_at_def Let_def
        open_modes_some split: option.splits)
qed

lemma mount_open_result:
  "mount_open rs ow fid mode (f, h) =
     (case rs (mf_path f) (mode AND ow \<noteq> 0) of
        Inl e \<Rightarrow> (Some e, f, h)
      | Inr i \<Rightarrow>
          (None, f\<lparr>mf_opens := (mf_opens f)(fid \<mapsto> h_next h)\<rparr>,
           h\<lparr>h_fds := (h_fds h)(h_next h \<mapsto> (i, mode AND ow \<noteq> 0)), h_next := Suc (h_next h)\<rparr>))"
  by (simp add: mount_open_def file_open_def Let_def split: sum.split)

lemma mount_open_sim:
  assumes ok: "file_ok rs ino (f, h)"
  shows "fst (mount_step rs ow ino (MOpen fid mode) (f, h))
      = fst (served_step ow (MOpen fid mode) (served_of rs ino (f, h)))
    \<and> served_of rs ino (snd (mount_step rs ow ino (MOpen fid mode) (f, h)))
      = snd (served_step ow (MOpen fid mode) (served_of rs ino (f, h)))"
proof -
  have "mf_opens f g \<noteq> Some (h_next h)" for g using ok by (fastforce simp: file_ok_def)
  then show ?thesis
    by (cases "rs (mf_path f) (mode AND ow \<noteq> 0)")
      (simp_all add: mount_open_result served_of_def Let_def open_modes_open)
qed

lemma mount_write_sim:
  assumes ok: "file_ok rs ino (f, h)"
  shows "fst (mount_step rs ow ino (MWrite fid off bs) (f, h))
      = fst (served_step ow (MWrite fid off bs) (served_of rs ino (f, h)))
    \<and> served_of rs ino (snd (mount_step rs ow ino (MWrite fid off bs) (f, h)))
      = snd (served_step ow (MWrite fid off bs) (served_of rs ino (f, h)))"
proof (cases "mf_opens f fid")
  case None
  then show ?thesis by (simp add: mount_write_def served_of_def open_modes_none)
next
  case (Some fd)
  with ok obtain w where "h_fds h fd = Some (ino, w)" by (rule file_ok_open)
  then have m: "open_modes (mf_opens f) (h_fds h) fid = Some w"
    and wr: "file_write_at fd (sint off) bs h =
      (if sint off < 0 then ((0, Some neg_offset), h) else if bs = [] then ((0, None), h)
       else case h_data h ino of None \<Rightarrow> ((0, Some bad_fd), h)
         | Some d \<Rightarrow> if \<not> w then ((0, Some bad_fd), h)
             else ((length bs, None), h\<lparr>h_data := (h_data h)(ino \<mapsto> write_bytes d (unat off) bs)\<rparr>))"
    using Some nonneg_offset [of off]
    by (simp_all add: open_modes_some file_write_at_def split: option.split)
  show ?thesis
    unfolding mount_step.simps served_step.simps mount_write_def served_of_def
    by (simp add: Some m wr split: option.split)
qed

lemma mount_close_sim:
  assumes ok: "file_ok rs ino (f, h)"
  shows "fst (mount_step rs ow ino (MClose fid) (f, h))
      = fst (served_step ow (MClose fid) (served_of rs ino (f, h)))
    \<and> served_of rs ino (snd (mount_step rs ow ino (MClose fid) (f, h)))
      = snd (served_step ow (MClose fid) (served_of rs ino (f, h)))"
proof (cases "mf_opens f fid")
  case None
  then show ?thesis by (auto simp: mount_close_def served_of_def open_modes_none fun_eq_iff)
next
  case (Some fd)
  with ok obtain w where fd: "h_fds h fd = Some (ino, w)" by (rule file_ok_open)
  have "\<And>g. mf_opens f g = Some fd \<Longrightarrow> g = fid" using ok Some by (simp add: file_ok_def)
  note cl = open_modes_close [OF this]
  show ?thesis
    by (simp add: Some fd cl mount_close_def file_close_def served_of_def)
qed

lemma file_ok_opened:
  assumes ok: "file_ok rs ino (f, h)" and "rs (mf_path f) w = Inr i"
  shows "file_ok rs ino (f\<lparr>mf_opens := (mf_opens f)(fid \<mapsto> h_next h)\<rparr>,
    h\<lparr>h_fds := (h_fds h)(h_next h \<mapsto> (i, w)), h_next := Suc (h_next h)\<rparr>)"
proof -
  have "i = ino" and "\<And>g. mf_opens f g \<noteq> Some (h_next h)"
    using assms by (fastforce simp: file_ok_def)+
  with ok show ?thesis by (auto simp: file_ok_def less_Suc_eq)
qed

lemma file_ok_closed:
  assumes ok: "file_ok rs ino (f, h)" and fd: "mf_opens f fid = Some fd"
  shows "file_ok rs ino (f\<lparr>mf_opens := (mf_opens f)(fid := None)\<rparr>, h\<lparr>h_fds := (h_fds h)(fd := None)\<rparr>)"
proof -
  have "\<And>g. mf_opens f g = Some fd \<Longrightarrow> g = fid" using ok fd by (simp add: file_ok_def)
  with ok show ?thesis by (auto simp: file_ok_def)
qed

lemma file_ok_data: "file_ok rs ino (f, h\<lparr>h_data := d\<rparr>) = file_ok rs ino (f, h)"
  by (simp add: file_ok_def)

lemma mount_step_ok:
  assumes ok: "file_ok rs ino s"
  shows "file_ok rs ino (snd (mount_step rs ow ino oper s))"
proof -
  obtain f h where s: "s = (f, h)" by fastforce
  note ok = ok [unfolded s]
  show ?thesis
  proof (cases oper)
    case (MOpen fid mode)
    then show ?thesis
      using ok s file_ok_opened [OF ok]
      by (cases "rs (mf_path f) (mode AND ow \<noteq> 0)") (simp_all add: mount_open_result)
  next
    case (MRead fid off n)
    then show ?thesis using ok s by simp
  next
    case (MWrite fid off bs)
    then show ?thesis
      using ok s
      by (auto simp: mount_write_def file_write_at_def file_ok_data split: option.splits)
  next
    case (MClose fid)
    then show ?thesis
    proof (cases "mf_opens f fid")
      case (Some fd)
      with ok obtain w where "h_fds h fd = Some (ino, w)" by (rule file_ok_open)
      then show ?thesis
        using MClose s Some file_ok_closed [OF ok Some]
        by (simp add: mount_close_def file_close_def)
    qed (use ok s in \<open>simp add: mount_close_def\<close>)
  next
    case (MOther bs)
    then show ?thesis using ok s by (auto simp: file_ok_data split: option.splits)
  qed
qed

interpretation mount: simulation "mount_step rs ow ino" "served_step ow" "served_of rs ino" "file_ok rs ino"
  for rs ow ino
proof unfold_locales
  fix s oper
  assume ok: "file_ok rs ino s"
  then show "file_ok rs ino (snd (mount_step rs ow ino oper s))" by (rule mount_step_ok)
  obtain f h where s: "s = (f, h)" by fastforce
  show "fst (mount_step rs ow ino oper s) = fst (served_step ow oper (served_of rs ino s))
    \<and> served_of rs ino (snd (mount_step rs ow ino oper s))
      = snd (served_step ow oper (served_of rs ino s))"
  proof (cases oper)
    case (MRead fid off n)
    then show ?thesis using mount_read_sim [of rs ino f h] ok s by simp
  next
    case (MOther bs)
    then show ?thesis using s by (auto simp: served_of_def split: option.splits)
  qed (use ok s mount_open_sim mount_write_sim mount_close_sim in \<open>simp_all del: mount_step.simps served_step.simps\<close>)
qed


section \<open>Descriptors\<close>

text \<open>A client that opens a fid only when it has not got it open, as 9P demands.\<close>

fun fresh_opens :: "mop list \<Rightarrow> nat set \<Rightarrow> bool" where
  "fresh_opens [] F = True"
| "fresh_opens (MOpen fid mode # ops) F = (fid \<notin> F \<and> fresh_opens ops (insert fid F))"
| "fresh_opens (MClose fid # ops) F = fresh_opens ops (F - {fid})"
| "fresh_opens (MRead fid off n # ops) F = fresh_opens ops F"
| "fresh_opens (MWrite fid off bs # ops) F = fresh_opens ops F"
| "fresh_opens (MOther bs # ops) F = fresh_opens ops F"

text \<open>No two fids share a descriptor.\<close>

definition own_fds :: "(nat \<rightharpoonup> nat) \<Rightarrow> bool" where
  "own_fds opens \<longleftrightarrow> (\<forall>fid gid fd. opens fid = Some fd \<longrightarrow> opens gid = Some fd \<longrightarrow> fid = gid)"

lemma own_fds_open: "own_fds opens \<Longrightarrow> fd \<notin> ran opens \<Longrightarrow> own_fds (opens(fid \<mapsto> fd))"
  unfolding own_fds_def by (metis fun_upd_apply option.inject ranI)

lemma own_fds_close: "own_fds opens \<Longrightarrow> own_fds (opens(fid := None))"
  unfolding own_fds_def by (metis fun_upd_apply option.distinct(1))

lemma ran_close:
  assumes "own_fds opens" and "opens fid = Some fd"
  shows "ran (opens(fid := None)) = ran opens - {fd}"
proof (intro set_eqI iffI)
  fix x assume "x \<in> ran (opens(fid := None))"
  then obtain g where "opens g = Some x" "g \<noteq> fid" by (auto simp: ran_def split: if_splits)
  then show "x \<in> ran opens - {fd}" using assms by (auto simp: own_fds_def intro: ranI)
next
  fix x assume "x \<in> ran opens - {fd}"
  then obtain g where "opens g = Some x" "x \<noteq> fd" by (auto simp: ran_def)
  then have "(opens(fid := None)) g = Some x" using assms(2) by auto
  then show "x \<in> ran (opens(fid := None))" by (rule ranI)
qed

text \<open>Apart from the descriptors of the open fids the table is that of the start.\<close>

definition fds_ok :: "(nat \<rightharpoonup> nat \<times> bool) \<Rightarrow> nat set \<Rightarrow> mount_file \<times> host \<Rightarrow> bool" where
  "fds_ok fds0 F s \<longleftrightarrow>
     (let (f, h) = s in
      dom (mf_opens f) \<subseteq> F \<and> own_fds (mf_opens f) \<and> ran (mf_opens f) \<subseteq> dom (h_fds h)
      \<and> ran (mf_opens f) \<inter> dom fds0 = {} \<and> (\<forall>fd \<in> dom (h_fds h). fd < h_next h)
      \<and> (\<forall>fd. fd \<notin> ran (mf_opens f) \<longrightarrow> h_fds h fd = fds0 fd))"

lemma fds_ok_open:
  assumes k: "fds_ok fds0 F (f, h)" and "fid \<notin> F"
  shows "fds_ok fds0 (insert fid F) (f\<lparr>mf_opens := (mf_opens f)(fid \<mapsto> h_next h)\<rparr>,
    h\<lparr>h_fds := (h_fds h)(h_next h \<mapsto> x), h_next := Suc (h_next h)\<rparr>)"
proof -
  note k = k [unfolded fds_ok_def Let_def prod.case]
  have n: "h_next h \<notin> dom (h_fds h)" using k by blast
  then have r: "h_next h \<notin> ran (mf_opens f)" using k by blast
  then have "h_next h \<notin> dom fds0" using k n by (metis domIff)
  moreover have "mf_opens f fid = None" using k assms(2) by blast
  moreover have "own_fds ((mf_opens f)(fid \<mapsto> h_next h))" using k r own_fds_open by blast
  ultimately show ?thesis
    using k by (simp add: fds_ok_def) (blast intro: less_SucI)
qed

lemma fds_ok_close:
  assumes k: "fds_ok fds0 F (f, h)" and fd: "mf_opens f fid = Some fd"
  shows "fds_ok fds0 (F - {fid}) (f\<lparr>mf_opens := (mf_opens f)(fid := None)\<rparr>,
    h\<lparr>h_fds := (h_fds h)(fd := None)\<rparr>)"
proof -
  note k = k [unfolded fds_ok_def Let_def prod.case]
  have own: "own_fds (mf_opens f)" using k by blast
  have "fd \<in> ran (mf_opens f)" using fd by (rule ranI)
  then have "fds0 fd = None" using k by blast
  then show ?thesis
    using k own_fds_close [OF own, of fid] by (simp add: fds_ok_def ran_close [OF own fd]) blast
qed

lemma fds_ok_run:
  assumes "fds_ok fds0 F s" and "fresh_opens ops F"
  shows "\<exists>F'. fds_ok fds0 F' (snd (run_ops (mount_step rs ow ino) ops s))"
  using assms
proof (induction ops F arbitrary: s rule: fresh_opens.induct)
  case (2 fid mode ops F)
  obtain f h where s: "s = (f, h)" by fastforce
  note k = "2.prems"(1) [unfolded s]
  have "fds_ok fds0 (insert fid F) (snd (mount_step rs ow ino (MOpen fid mode) s))"
  proof (cases "rs (mf_path f) (mode AND ow \<noteq> 0)")
    case (Inl e)
    then show ?thesis using k by (auto simp: s mount_open_result fds_ok_def)
  next
    case (Inr i)
    then show ?thesis using fds_ok_open [OF k] "2.prems"(2) by (simp add: s mount_open_result)
  qed
  then show ?case using "2.IH" "2.prems"(2) by (simp add: split_beta)
next
  case (3 fid ops F)
  obtain f h where s: "s = (f, h)" by fastforce
  note k = "3.prems"(1) [unfolded s]
  have "fds_ok fds0 (F - {fid}) (snd (mount_step rs ow ino (MClose fid) s))"
  proof (cases "mf_opens f fid")
    case None
    then show ?thesis using k by (auto simp: s mount_close_def fds_ok_def)
  next
    case (Some fd)
    then obtain x where "h_fds h fd = Some x" using k by (auto simp: fds_ok_def ran_def dom_def)
    with Some show ?thesis using fds_ok_close [OF k Some] by (simp add: s mount_close_def file_close_def)
  qed
  then show ?case using "3.IH" "3.prems"(2) by (simp add: split_beta)
next
  case (5 fid off bs ops F)
  obtain f h where s: "s = (f, h)" by fastforce
  have "fds_ok fds0 F (snd (mount_step rs ow ino (MWrite fid off bs) s))"
    using "5.prems"(1) by (auto simp: s mount_write_def file_write_at_def fds_ok_def split: option.splits)
  then show ?case using "5.IH" "5.prems"(2) by (simp add: split_beta)
next
  case (6 bs ops F)
  obtain f h where s: "s = (f, h)" by fastforce
  have "fds_ok fds0 F (snd (mount_step rs ow ino (MOther bs) s))"
    using "6.prems"(1) by (auto simp: s fds_ok_def split: option.splits)
  then show ?case using "6.IH" "6.prems"(2) by (simp add: split_beta)
qed (auto simp: split_beta)


section \<open>Paths\<close>

fun walk ::
    "(string \<Rightarrow> goerr + dir_entry list) \<Rightarrow> (string \<Rightarrow> goerr + file_info) \<Rightarrow> u32 \<Rightarrow> int
     \<Rightarrow> node \<Rightarrow> string list \<Rightarrow> node option" where
  "walk readdir stat dmdir now nd [] = Some nd"
| "walk readdir stat dmdir now (DirNode (Some d)) (n # ns) =
     (case children readdir stat dmdir now d of
        None \<Rightarrow> None
      | Some m \<Rightarrow> (case m n of None \<Rightarrow> None | Some nd \<Rightarrow> walk readdir stat dmdir now nd ns))"
| "walk readdir stat dmdir now nd (n # ns) = None"

text \<open>The host path of a node and the user it is shown to belong to.\<close>

definition node_at :: "node \<Rightarrow> string \<Rightarrow> string \<Rightarrow> bool" where
  "node_at nd path user \<longleftrightarrow>
     (case nd of
        DirNode None \<Rightarrow> True
      | DirNode (Some d) \<Rightarrow> md_root d = path \<and> st_uid (md_stat d) = user \<and> st_gid (md_stat d) = user
      | FileNode f \<Rightarrow> mf_path f = path \<and> st_uid (mf_stat f) = user \<and> st_gid (mf_stat f) = user)"

lemma add_entries_at:
  assumes "\<forall>e \<in> set es. plain_name (de_name e)"
    and "list_all plain_name ws" and "ws \<noteq> []"
    and "md_root d = abs_path ws" and "st_uid (md_stat d) = user" and "st_gid (md_stat d) = user"
    and "\<And>n nd. m n = Some nd \<Longrightarrow> plain_name n \<and> node_at nd (abs_path (ws @ [n])) user"
    and "fold (add_entry stat dmdir now d) es m n = Some nd"
  shows "plain_name n \<and> node_at nd (abs_path (ws @ [n])) user"
  using assms(1,7,8)
proof (induction es arbitrary: m)
  case Nil
  then show ?case by simp
next
  case (Cons e es)
  have at: "plain_name k \<and> node_at x (abs_path (ws @ [k])) user"
    if "add_entry stat dmdir now d e m k = Some x" for k x
    using that Cons.prems(1,2) assms(2-6) path_join_abs [of ws "de_name e"]
    by (auto simp: add_entry_def node_at_def new_mount_dir_def new_mount_file_def Let_def
        split: sum.splits if_splits)
  show ?case
    by (rule Cons.IH [of "add_entry stat dmdir now d e m"]) (use Cons.prems at in auto)
qed

lemma walk_at:
  assumes plain: "\<And>p es e. readdir p = Inr es \<Longrightarrow> e \<in> set es \<Longrightarrow> plain_name (de_name e)"
    and "list_all plain_name ws" and "ws \<noteq> []" and "node_at nd0 (abs_path ws) user"
    and "walk readdir stat dmdir now nd0 names = Some nd"
  shows "list_all plain_name names \<and> node_at nd (abs_path (ws @ names)) user"
  using assms(2-5)
proof (induction names arbitrary: ws nd0)
  case Nil
  then show ?case by simp
next
  case (Cons n ns)
  then obtain d es nd1 where d: "nd0 = DirNode (Some d)" "readdir (md_root d) = Inr es"
    and n: "fold (add_entry stat dmdir now d) es Map.empty n = Some nd1"
    and w: "walk readdir stat dmdir now nd1 ns = Some nd"
    by (auto simp: children_def split: node.splits option.splits sum.splits
        elim!: walk.elims)
  have "plain_name n \<and> node_at nd1 (abs_path (ws @ [n])) user"
    by (rule add_entries_at [OF _ Cons.prems(1,2) _ _ _ _ n])
      (use plain [OF d(2)] Cons.prems(3) d(1) in \<open>auto simp: node_at_def\<close>)
  then show ?case
    using Cons.IH [of "ws @ [n]" nd1] Cons.prems(1) w by simp
qed

section \<open>Properties\<close>

text \<open>Claim C9. A mounted file is, to its 9P clients, the abstract file \<open>served\<close>: whatever sequence of
  opens, reads, writes and closes of any fids, with other programs writing to the file in
  between, every answer is that of the abstract file and so is the state, with offsets read as
  signed 64-bit numbers and one descriptor of the host behind each open fid.\<close>

theorem mount_file_refines:
  assumes "mf_opens f = Map.empty" and "\<forall>w i. rs (mf_path f) w = Inr i \<longrightarrow> i = ino"
  shows "fst (run_ops (mount_step rs ow ino) ops (f, h))
      = fst (run_ops (served_step ow) ops (served_of rs ino (f, h)))
    \<and> served_of rs ino (snd (run_ops (mount_step rs ow ino) ops (f, h)))
      = snd (run_ops (served_step ow) ops (served_of rs ino (f, h)))"
proof (rule mount.run_sim)
  show "file_ok rs ino (f, h)" using assms by (simp add: file_ok_def)
qed

definition demo_host :: host where
  "demo_host = \<lparr>h_data = [7 \<mapsto> [1, 2, 3, 4]], h_fds = [0 \<mapsto> (1, True)], h_next = 1\<rparr>"

definition demo_file :: mount_file where
  "demo_file = new_mount_file 0 ''/srv/a'' \<lparr>fi_name = ''a'', fi_perm = 420, fi_mtime = 0, fi_size = 4\<rparr>
     ''glenda'' ''glenda''"

theorem mount_file_refines_witness:
  "fst (run_ops (mount_step (\<lambda>_ _. Inr 7) 1 7)
      [MOpen 5 1, MWrite 5 2 [9, 9, 9], MRead 5 1 10, MClose 5, MRead 5 0 1] (demo_file, demo_host))
   = [Opened None, Wrote 3 None, Got (Ret (Inr [2, 9, 9, 9])), Closed None, Got (Ret (Inl not_open))]"
proof -
  have r: "\<forall>w i. (\<lambda>_ _. Inr 7) (mf_path demo_file) w = Inr i \<longrightarrow> i = (7 :: nat)" by simp
  have "mf_opens demo_file = Map.empty" by (simp add: demo_file_def new_mount_file_def)
  from mount_file_refines [OF this r, of 1 "[MOpen 5 1, MWrite 5 2 [9, 9, 9], MRead 5 1 10, MClose 5,
      MRead 5 0 1]" demo_host]
  show ?thesis
    by (simp add: served_of_def demo_host_def served_read_def open_modes_def demo_file_def
        new_mount_file_def max_alloc_def write_bytes_def)
qed


text \<open>Claim C16. Descriptors: while a client opens no fid that it has open already, every open fid of
  the file has a descriptor of its own and all other descriptors of the host are as they were
  before: a close gives back what the open took, and a file with no open fid holds nothing.\<close>

theorem mount_file_descriptors:
  assumes "mf_opens f = Map.empty" and "\<forall>fd \<in> dom (h_fds h). fd < h_next h"
    and "fresh_opens ops {}"
    and "snd (run_ops (mount_step rs ow ino) ops (f, h)) = (f', h')"
  shows "(\<forall>fd. fd \<notin> ran (mf_opens f') \<longrightarrow> h_fds h' fd = h_fds h fd)
    \<and> own_fds (mf_opens f') \<and> ran (mf_opens f') \<subseteq> dom (h_fds h') - dom (h_fds h)"
proof -
  have "fds_ok (h_fds h) {} (f, h)" using assms(1,2) by (simp add: fds_ok_def own_fds_def)
  from fds_ok_run [OF this assms(3), of rs ow ino] show ?thesis
    unfolding assms(4) by (auto simp: fds_ok_def)
qed

theorem mount_file_descriptors_witness:
  "h_fds (snd (snd (run_ops (mount_step (\<lambda>_ _. Inr 7) 1 7) [MOpen 5 0, MOpen 6 1, MClose 5, MClose 6]
      (demo_file, demo_host)))) = h_fds demo_host"
proof -
  have e: "mf_opens demo_file = Map.empty" by (simp add: demo_file_def new_mount_file_def)
  obtain f' h' where s: "snd (run_ops (mount_step (\<lambda>_ _. Inr 7) 1 7)
      [MOpen 5 0, MOpen 6 1, MClose 5, MClose 6] (demo_file, demo_host)) = (f', h')" by fastforce
  have "\<forall>fd \<in> dom (h_fds demo_host). fd < h_next demo_host" by (simp add: demo_host_def)
  note d = mount_file_descriptors [OF e this _ s]
  have "mf_opens f' = Map.empty"
    using s by (auto simp: mount_open_result mount_close_def e file_close_def demo_host_def)
  then have "ran (mf_opens f') = {}" by simp
  with d have "h_fds h' = h_fds demo_host" by auto
  then show ?thesis by (simp only: s snd_conv)
qed

text \<open>Opening a fid twice loses the first descriptor: nothing closes it any more.\<close>

lemma mount_reopen_leaks:
  assumes "mf_opens f fid = Some fd" and "h_fds h fd = Some x" and "fd < h_next h"
    and "rs (mf_path f) (mode AND ow \<noteq> 0) = Inr i"
    and "snd (run_ops (mount_step rs ow ino) [MOpen fid mode, MClose fid] (f, h)) = (f', h')"
  shows "h_fds h' fd = Some x \<and> mf_opens f' fid = None"
  using assms by (auto simp: mount_open_result mount_close_def file_close_def)

text \<open>Claim C29. Names lead nowhere but down: every node a client can walk to from an exported directory
  by any names has the path of that directory followed by those names, none of which is \<open>..\<close> or
  has a slash, and belongs to the session's user.\<close>

theorem mount_walk_paths:
  assumes "\<And>p es e. readdir p = Inr es \<Longrightarrow> e \<in> set es \<Longrightarrow> plain_name (de_name e)"
    and "list_all plain_name ws" and "ws \<noteq> []"
    and "walk readdir stat dmdir now
      (DirNode (new_mount_dir stat dmdir now (abs_path ws) name user user)) names = Some nd"
  shows "list_all plain_name names \<and> node_at nd (abs_path (ws @ names)) user"
proof (rule walk_at [OF assms(1-3) _ assms(4)])
  show "node_at (DirNode (new_mount_dir stat dmdir now (abs_path ws) name user user)) (abs_path ws) user"
    by (auto simp: node_at_def new_mount_dir_def Let_def split: sum.split)
qed

definition demo_readdir :: "string \<Rightarrow> goerr + dir_entry list" where
  "demo_readdir p =
     (if p = ''/srv'' then Inr [\<lparr>de_name = ''sub'', de_dir = True,
          de_info = Inr \<lparr>fi_name = ''sub'', fi_perm = 493, fi_mtime = 0, fi_size = 0\<rparr>\<rparr>]
      else if p = ''/srv/sub'' then Inr [\<lparr>de_name = ''x'', de_dir = False,
          de_info = Inr \<lparr>fi_name = ''x'', fi_perm = 420, fi_mtime = 0, fi_size = 9\<rparr>\<rparr>]
      else Inl (Err ''no such file''))"

definition demo_stat :: "string \<Rightarrow> goerr + file_info" where
  "demo_stat p = Inr \<lparr>fi_name = p, fi_perm = 493, fi_mtime = 0, fi_size = 0\<rparr>"

theorem mount_walk_paths_witness:
  "\<exists>f. walk demo_readdir demo_stat 0x80000000 0
      (DirNode (new_mount_dir demo_stat 0x80000000 0 ''/srv'' ''srv'' ''glenda'' ''glenda'')) [''sub'', ''x'']
    = Some (FileNode f) \<and> mf_path f = ''/srv/sub/x''"
proof -
  let ?w = "walk demo_readdir demo_stat 0x80000000 0
      (DirNode (new_mount_dir demo_stat 0x80000000 0 ''/srv'' ''srv'' ''glenda'' ''glenda'')) [''sub'', ''x'']"
  have j: "path_join [''/srv'', ''sub''] = ''/srv/sub''" by code_simp
  have "\<exists>f. ?w = Some (FileNode f)"
    by (simp add: new_mount_dir_def demo_stat_def children_def demo_readdir_def add_entry_def Let_def j)
  then obtain f where f: "?w = Some (FileNode f)" by blast
  have p: "\<And>p es e. demo_readdir p = Inr es \<Longrightarrow> e \<in> set es \<Longrightarrow> plain_name (de_name e)"
    by (auto simp: demo_readdir_def plain_name_def split: if_splits)
  have a: "''/srv'' = abs_path [''srv'']" by (simp add: abs_path_def)
  have "list_all plain_name [''srv'']" by (simp add: plain_name_def)
  from mount_walk_paths [OF p this _ f [unfolded a]] f show ?thesis
    by (simp add: node_at_def abs_path_def)
qed


text \<open>Claim C34. A file that a client opens for reading and writing cannot be written: \<open>Open\<close> looks at
  the bit of \<open>Owrite\<close>, which the mode \<open>Ordwr\<close> does not have (they are 1 and 2 in 9P), so the host
  file is opened for reading only, every write fails and the contents stay as they were.\<close>

theorem mount_ordwr_not_writable:
  assumes "ordwr AND owrite = (0 :: u8)"
    and "snd (mount_open rs owrite fid ordwr (f, h)) = (f1, h1)"
    and "mf_opens f fid = None" and "bs \<noteq> []"
  shows "snd (fst (mount_write fid off bs (f1, h1))) \<noteq> None
    \<and> fst (fst (mount_write fid off bs (f1, h1))) = 0
    \<and> h_data (snd (snd (mount_write fid off bs (f1, h1)))) = h_data h"
proof (cases "rs (mf_path f) False")
  case (Inl e)
  then have "f1 = f" "h1 = h" using assms(1,2) by (simp_all add: mount_open_result)
  then show ?thesis using assms(3) by (simp add: mount_write_def)
next
  case (Inr i)
  then have "mf_opens f1 fid = Some (h_next h)" "h_fds h1 (h_next h) = Some (i, False)"
    "h_data h1 = h_data h"
    using assms(1,2) by (auto simp: mount_open_result)
  then show ?thesis
    using assms(4) by (simp add: mount_write_def file_write_at_def split: option.split)
qed

theorem mount_ordwr_not_writable_witness:
  "fst (mount_write 5 0 [9] (snd (mount_open (\<lambda>_ _. Inr 7) 1 5 2 (demo_file, demo_host))))
     \<noteq> (1, None)"
proof -
  obtain f1 h1 where s: "snd (mount_open (\<lambda>_ _. Inr 7) 1 5 2 (demo_file, demo_host)) = (f1, h1)"
    by fastforce
  have "(2 :: u8) AND 1 = 0" by simp
  moreover have "mf_opens demo_file 5 = None" by (simp add: demo_file_def new_mount_file_def)
  ultimately have "snd (fst (mount_write 5 0 [9] (f1, h1))) \<noteq> None"
    using mount_ordwr_not_writable [OF _ s, of "[9]" 0] by simp
  then show ?thesis unfolding s by (metis snd_conv)
qed

text \<open>The Qid of a node, which is to be unique to it, is the time of its last change: files changed
  at the same time cannot be told apart.\<close>

lemma mount_qid_collision:
  assumes "fi_mtime a = fi_mtime b"
  shows "st_qpath (mf_stat (new_mount_file now p a u g)) = st_qpath (mf_stat (new_mount_file now q b u g))"
  using assms by (simp add: new_mount_file_def)

end
