(* ===== verification/Offset_File.thy ===== *)
theory Offset_File
  imports Go_Base
begin

text \<open>
  Files that serve a byte sequence by offset and count, as a 9P \<open>Read\<close> asks for them:
  \<open>FBFile.Read\<close> (\<open>cmd/rcpud/fb.go\<close>), \<open>gortnStatusFile.Read\<close> (\<open>cmd/rcpud/gortns.go\<close>) and
  \<open>AgentStatusFile.Read\<close> (\<open>cmd/l9term/main.go\<close>) share one body, \<open>read_window\<close>: offset and
  count are 64-bit words, and their sum wraps around.

  The locale \<open>offset_file\<close> is the contract such a file has towards its client; inside it, a
  client that reads on from where it stopped gets the content without gap or repetition.
\<close>

definition read_window :: "goerr \<Rightarrow> 'b list \<Rightarrow> u64 \<Rightarrow> u64 \<Rightarrow> (goerr + 'b list) go" where
  "read_window eof data offset count =
     (if offset \<ge> of_nat (length data) then Ret (Inl eof)
      else let end1 = offset + count;
               end2 = (if end1 > of_nat (length data) then of_nat (length data) else end1)
           in go_bind (go_slice data (unat offset) (unat end2)) (\<lambda>bs. Ret (Inr bs)))"

text \<open>A Go slice is shorter than \<open>2^63\<close>, so its length is the same number as a \<open>uint64\<close>.\<close>

definition fits :: "'b list \<Rightarrow> bool" where
  "fits data \<longleftrightarrow> length data < 2 ^ 63"

lemma fits_unat: "fits data \<Longrightarrow> unat (of_nat (length data) :: u64) = length data"
  unfolding fits_def by (rule unat_of_nat_less) simp

lemma read_window_eof:
  "fits data \<Longrightarrow> length data \<le> unat offset \<Longrightarrow> read_window eof data offset count = Ret (Inl eof)"
  by (simp add: read_window_def word_le_nat_alt fits_unat)

lemma read_window_data:
  assumes "fits data" and "unat offset < length data" and "unat offset + unat count < 2 ^ 64"
  shows "read_window eof data offset count = Ret (Inr (take (unat count) (drop (unat offset) data)))"
proof -
  have s: "unat (offset + count) = unat offset + unat count"
    using assms(3) by (rule unat_u64_add)
  have n: "\<not> offset \<ge> of_nat (length data)"
    using assms(1,2) by (simp add: word_le_nat_alt fits_unat)
  show ?thesis
  proof (cases "offset + count > of_nat (length data)")
    case True
    then have "length data \<le> unat offset + unat count"
      using s assms(1) by (simp add: word_less_nat_alt fits_unat)
    then show ?thesis
      using n True assms(1,2) by (simp add: read_window_def Let_def fits_unat go_slice_Ret)
  next
    case False
    then have "unat offset + unat count \<le> length data"
      using s assms(1) by (simp add: word_less_nat_alt fits_unat)
    then show ?thesis
      using n False s by (simp add: read_window_def Let_def go_slice_Ret)
  qed
qed

text \<open>When the sum of offset and count wraps around, the slice bounds are the wrong way round.\<close>

lemma read_window_wrap:
  assumes "fits data" and "unat offset < length data" and "2 ^ 64 \<le> unat offset + unat count"
  shows "read_window eof data offset count = Panic"
proof -
  have "unat count < 2 ^ 64" by (rule unat_u64_less)
  moreover have "unat (offset + count) = unat offset + unat count - 2 ^ 64"
    using assms(3) calculation unat_u64_less [of offset]
    by (simp add: unat_word_ariths le_mod_geq)
  ultimately have s: "unat (offset + count) < unat offset"
    using assms(3) by linarith
  have n: "\<not> offset \<ge> of_nat (length data)"
    using assms(1,2) by (simp add: word_le_nat_alt fits_unat)
  have "\<not> offset + count > of_nat (length data)"
    using s assms(1,2) by (simp add: word_less_nat_alt fits_unat)
  then show ?thesis
    using n s by (simp add: read_window_def Let_def go_bind_Panic_iff go_slice_Panic)
qed

lemma read_window_panic_iff:
  "fits data \<Longrightarrow> read_window eof data offset count = Panic \<longleftrightarrow>
   unat offset < length data \<and> 2 ^ 64 \<le> unat offset + unat count"
  using read_window_eof [of data offset eof count] read_window_data [of data offset count eof]
    read_window_wrap [of data offset count eof]
  by (metis go.distinct(1) leI)

section \<open>The client of such a file\<close>

text \<open>Reads of the given counts, each from where the one before stopped, until one fails.\<close>

fun seq_reads :: "(u64 \<Rightarrow> u64 \<Rightarrow> (goerr + 'b list) go) \<Rightarrow> u64 \<Rightarrow> u64 list \<Rightarrow> 'b list" where
  "seq_reads rd off [] = []"
| "seq_reads rd off (c # cs) =
     (case rd off c of
        Ret (Inr bs) \<Rightarrow> bs @ seq_reads rd (off + of_nat (length bs)) cs
      | _ \<Rightarrow> [])"

locale offset_file =
  fixes rd :: "u64 \<Rightarrow> u64 \<Rightarrow> (goerr + 'b list) go"
    and content :: "'b list"
  assumes content_fits: "fits content"
    and rd_data: "unat off < length content \<Longrightarrow> unat off + unat cnt < 2 ^ 64 \<Longrightarrow>
      rd off cnt = Ret (Inr (take (unat cnt) (drop (unat off) content)))"
    and rd_end: "length content \<le> unat off \<Longrightarrow> \<exists>e. rd off cnt = Ret (Inl e)"
begin

lemma no_panic: "unat cnt < 2 ^ 32 \<Longrightarrow> rd off cnt \<noteq> Panic"
proof (cases "unat off < length content")
  case True
  moreover assume "unat cnt < 2 ^ 32"
  moreover have "unat off + unat cnt < 2 ^ 64"
    using True \<open>unat cnt < 2 ^ 32\<close> content_fits by (simp add: fits_def)
  ultimately show ?thesis using rd_data by auto
next
  case False
  then show ?thesis using rd_end [of off cnt] by auto
qed

lemma seq_reads_content:
  assumes "\<forall>c \<in> set cs. unat c < 2 ^ 32" and "unat off \<le> length content"
  shows "seq_reads rd off cs = take (sum_list (map unat cs)) (drop (unat off) content)"
  using assms
proof (induction cs arbitrary: off)
  case Nil
  show ?case by simp
next
  case (Cons c cs)
  show ?case
  proof (cases "unat off < length content")
    case True
    let ?bs = "take (unat c) (drop (unat off) content)"
    have "unat off + unat c < 2 ^ 64"
      using True Cons.prems(1) content_fits by (simp add: fits_def)
    with True have rd: "rd off c = Ret (Inr ?bs)" by (rule rd_data)
    have le: "unat off + length ?bs \<le> length content" using True by simp
    then have "unat (off + of_nat (length ?bs) :: u64) = unat off + length ?bs"
      using content_fits by (simp add: unat_word_ariths unat_of_nat fits_def)
    moreover have "drop (unat off + length ?bs) content = drop (unat c) (drop (unat off) content)"
      by (simp add: min_def add.commute)
    ultimately show ?thesis
      using Cons.IH [of "off + of_nat (length ?bs)"] Cons.prems(1) le rd by (simp add: take_add)
  next
    case False
    then obtain e where "rd off c = Ret (Inl e)" using rd_end by fastforce
    then show ?thesis using False by simp
  qed
qed

lemma seq_reads_all:
  assumes "\<forall>c \<in> set cs. unat c < 2 ^ 32" and "length content \<le> sum_list (map unat cs)"
  shows "seq_reads rd 0 cs = content"
  using seq_reads_content [of cs 0] assms by simp

end

lemma offset_file_window: "fits data \<Longrightarrow> offset_file (read_window eof data) data"
  by unfold_locales (auto simp: read_window_data read_window_eof)

end
