(* ===== verification/Framebuffer.thy ===== *)
theory Framebuffer
  imports Offset_File
begin

text \<open>
  Framebuffer capture: \<open>cmd/rcpud/fb.go\<close>, \<open>internal/fb/fb.go\<close> and the framebuffer parts of
  \<open>drawsrv.go\<close> and \<open>cmd/drawsrv/main.go\<close>.

  The kernel is outside the repository: what each system call of an opener answers is a field
  of \<open>fb_env\<close>, and an opener returns its result with the list of the calls it made, so that
  the descriptors it leaves open can be counted. A Go \<open>int\<close> is a 64-bit word here.

  The locale \<open>copyer\<close> is the Go interface \<open>Copyer\<close> with its promise, that \<open>Copy\<close> returns the
  pixels; \<open>FBFile.Read\<close> is its client, and the four framebuffer types of the program
  interpret it.
\<close>

section \<open>The kernel\<close>

datatype syscall =
    SysOpen string nat
  | SysOpenFail string
  | SysIoctl nat nat "nat list"   \<comment> \<open>descriptor, request, arguments passed in\<close>
  | SysMmap nat nat nat           \<comment> \<open>descriptor, offset, length\<close>
  | SysMunmap
  | SysClose nat

record drm_create =
  cr_w :: u32
  cr_h :: u32
  cr_handle :: u32
  cr_pitch :: u32

record fb_env =
  env_open :: "string + nat"
  env_create :: "string + drm_create"
  env_map :: "string + u64 \<times> u64"            \<comment> \<open>offset and size\<close>
  env_info :: "string + u32 \<times> u32 \<times> u32"    \<comment> \<open>X, Y, bits per pixel\<close>
  env_mmap :: "string + bytes"

datatype fb_err =
    OpenErr string string | CreateErr string | MapErr string | InfoErr string | MmapErr string

text \<open>The descriptors open after a sequence of calls, given those open before it.\<close>

fun open_fds :: "syscall list \<Rightarrow> nat list \<Rightarrow> nat list" where
  "open_fds [] fds = fds"
| "open_fds (SysOpen p fd # cs) fds = open_fds cs (fd # fds)"
| "open_fds (SysClose fd # cs) fds = open_fds cs (remove1 fd fds)"
| "open_fds (_ # cs) fds = open_fds cs fds"

section \<open>The openers\<close>

text \<open>The DRM path: open the node, create a dumb buffer of 1920 by 1080 by 32, map it. Every
  failure after the open closes the descriptor.\<close>

definition drm_open ::
    "string \<Rightarrow> fb_env \<Rightarrow> (fb_err + drm_create \<times> bytes \<times> nat) \<times> syscall list" where
  "drm_open path env =
     (case env_open env of
        Inl e \<Rightarrow> (Inl (OpenErr path e), [SysOpenFail path])
      | Inr fd \<Rightarrow>
          let t1 = [SysOpen path fd, SysIoctl fd 0x40086402 [1920, 1080, 32]]
          in case env_create env of
               Inl e \<Rightarrow> (Inl (CreateErr e), t1 @ [SysClose fd])
             | Inr cr \<Rightarrow>
                 let t2 = t1 @ [SysIoctl fd 0x40086407 [unat (cr_handle cr)]]
                 in case env_map env of
                      Inl e \<Rightarrow> (Inl (MapErr e), t2 @ [SysClose fd])
                    | Inr (off, sz) \<Rightarrow>
                        let t3 = t2 @ [SysMmap fd (unat off) (unat sz)]
                        in case env_mmap env of
                             Inl e \<Rightarrow> (Inl (MmapErr e), t3 @ [SysClose fd])
                           | Inr data \<Rightarrow> (Inr (cr, data, fd), t3))"

text \<open>The \<open>/dev/fb0\<close> path: the screen information gives stride and size.\<close>

definition fb0_stride :: "u32 \<Rightarrow> u32 \<Rightarrow> u64" where
  "fb0_stride x bpp = ucast x * (ucast bpp div 8)"

definition fb0_size :: "u32 \<Rightarrow> u32 \<Rightarrow> u32 \<Rightarrow> u64" where
  "fb0_size x y bpp = fb0_stride x bpp * ucast y"

definition fb0_open ::
    "fb_env \<Rightarrow> (fb_err + (u32 \<times> u32 \<times> u32) \<times> bytes \<times> nat) \<times> syscall list" where
  "fb0_open env =
     (case env_open env of
        Inl e \<Rightarrow> (Inl (OpenErr ''/dev/fb0'' e), [SysOpenFail ''/dev/fb0''])
      | Inr fd \<Rightarrow>
          let t1 = [SysOpen ''/dev/fb0'' fd, SysIoctl fd 0x4600 []]
          in case env_info env of
               Inl e \<Rightarrow> (Inl (InfoErr e), t1 @ [SysClose fd])
             | Inr (x, y, bpp) \<Rightarrow>
                 let t2 = t1 @ [SysMmap fd 0 (unat (fb0_size x y bpp))]
                 in case env_mmap env of
                      Inl e \<Rightarrow> (Inl (MmapErr e), t2 @ [SysClose fd])
                    | Inr data \<Rightarrow> (Inr ((x, y, bpp), data, fd), t2))"

subsection \<open>\<open>cmd/rcpud/fb.go\<close>\<close>

record framebuffer =
  fb_data :: bytes
  fb_w :: u64
  fb_h :: u64
  fb_stride :: u64
  fb_fd :: nat

definition framebuffer_copy :: "framebuffer \<Rightarrow> bytes" where
  "framebuffer_copy f = overwrite (replicate (length (fb_data f)) 0) 0 (fb_data f)"

definition open_fb_dumb_impl :: "fb_env \<Rightarrow> framebuffer option \<times> syscall list" where
  "open_fb_dumb_impl env =
     (case drm_open ''/dev/dri/renderD129'' env of
        (Inl e, t) \<Rightarrow> (None, t)
      | (Inr (cr, data, fd), t) \<Rightarrow>
          (Some \<lparr>fb_data = data, fb_w = ucast (cr_w cr), fb_h = ucast (cr_h cr),
                 fb_stride = ucast (cr_pitch cr), fb_fd = fd\<rparr>, t))"

definition open_fb0_impl :: "fb_env \<Rightarrow> framebuffer option \<times> syscall list" where
  "open_fb0_impl env =
     (case fb0_open env of
        (Inl e, t) \<Rightarrow> (None, t)
      | (Inr ((x, y, bpp), data, fd), t) \<Rightarrow>
          (Some \<lparr>fb_data = data, fb_w = ucast x, fb_h = ucast y,
                 fb_stride = fb0_stride x bpp, fb_fd = fd\<rparr>, t))"

subsection \<open>\<open>internal/fb/fb.go\<close>\<close>

text \<open>\<open>Buf.Close\<close> tests \<open>Data\<close> for nil and the descriptor for being non-negative, and changes
  neither.\<close>

record buf =
  buf_data :: "bytes option"
  buf_width :: u64
  buf_height :: u64
  buf_stride :: u64
  buf_fd :: int

definition open_drm :: "string \<Rightarrow> fb_env \<Rightarrow> (fb_err + buf) \<times> syscall list" where
  "open_drm path env =
     (case drm_open path env of
        (Inl e, t) \<Rightarrow> (Inl e, t)
      | (Inr (cr, data, fd), t) \<Rightarrow>
          (Inr \<lparr>buf_data = Some data, buf_width = ucast (cr_w cr), buf_height = ucast (cr_h cr),
                buf_stride = ucast (cr_pitch cr), buf_fd = int fd\<rparr>, t))"

definition open_fb0 :: "fb_env \<Rightarrow> (fb_err + buf) \<times> syscall list" where
  "open_fb0 env =
     (case fb0_open env of
        (Inl e, t) \<Rightarrow> (Inl e, t)
      | (Inr ((x, y, bpp), data, fd), t) \<Rightarrow>
          (Inr \<lparr>buf_data = Some data, buf_width = ucast x, buf_height = ucast y,
                buf_stride = fb0_stride x bpp, buf_fd = int fd\<rparr>, t))"

definition buf_bytes :: "buf \<Rightarrow> bytes" where
  "buf_bytes b = (case buf_data b of None \<Rightarrow> [] | Some d \<Rightarrow> d)"

definition buf_copy :: "buf \<Rightarrow> bytes" where
  "buf_copy b = overwrite (replicate (length (buf_bytes b)) 0) 0 (buf_bytes b)"

definition buf_close :: "buf \<Rightarrow> syscall list" where
  "buf_close b =
     (if buf_data b \<noteq> None then [SysMunmap] else [])
     @ (if buf_fd b \<ge> 0 then [SysClose (nat (buf_fd b))] else [])"

subsection \<open>\<open>drawsrv.go\<close> and \<open>cmd/drawsrv/main.go\<close>\<close>

text \<open>The \<open>FB\<close> of \<open>drawsrv.go\<close> keeps no descriptor.\<close>

record draw_fb =
  dfb_data :: bytes
  dfb_w :: u64
  dfb_h :: u64
  dfb_stride :: u64

definition draw_open_fb :: "string \<Rightarrow> fb_env \<Rightarrow> (fb_err + draw_fb) \<times> syscall list" where
  "draw_open_fb path env =
     (case drm_open path env of
        (Inl e, t) \<Rightarrow> (Inl e, t)
      | (Inr (cr, data, fd), t) \<Rightarrow>
          (Inr \<lparr>dfb_data = data, dfb_w = ucast (cr_w cr), dfb_h = ucast (cr_h cr),
                dfb_stride = ucast (cr_pitch cr)\<rparr>, t))"

definition draw_open_fb0 :: "fb_env \<Rightarrow> (fb_err + draw_fb) \<times> syscall list" where
  "draw_open_fb0 env =
     (case fb0_open env of
        (Inl e, t) \<Rightarrow> (Inl e, t)
      | (Inr ((x, y, bpp), data, fd), t) \<Rightarrow>
          (Inr \<lparr>dfb_data = data, dfb_w = ucast x, dfb_h = ucast y,
                dfb_stride = fb0_stride x bpp\<rparr>, t))"

definition draw_fb_copy :: "draw_fb \<Rightarrow> bytes" where
  "draw_fb_copy f = overwrite (replicate (length (dfb_data f)) 0) 0 (dfb_data f)"

text \<open>The slice of a successful \<open>Mmap\<close> is not nil.\<close>

definition draw_fb_close :: "draw_fb \<Rightarrow> syscall list" where
  "draw_fb_close f = [SysMunmap]"

text \<open>The \<open>FB\<close> of \<open>cmd/drawsrv/main.go\<close> does.\<close>

record cmd_fb =
  cfb_fd :: nat
  cfb_data :: bytes
  cfb_w :: u64
  cfb_h :: u64
  cfb_bpp :: u64
  cfb_stride :: u64

definition cmd_open_fb :: "fb_env \<Rightarrow> (fb_err + cmd_fb) \<times> syscall list" where
  "cmd_open_fb env =
     (case fb0_open env of
        (Inl e, t) \<Rightarrow> (Inl e, t)
      | (Inr ((x, y, bpp), data, fd), t) \<Rightarrow>
          (Inr \<lparr>cfb_fd = fd, cfb_data = data, cfb_w = ucast x, cfb_h = ucast y,
                cfb_bpp = ucast bpp, cfb_stride = fb0_stride x bpp\<rparr>, t))"

definition cmd_fb_copy :: "cmd_fb \<Rightarrow> bytes" where
  "cmd_fb_copy f = overwrite (replicate (length (cfb_data f)) 0) 0 (cfb_data f)"

definition cmd_fb_close :: "cmd_fb \<Rightarrow> syscall list" where
  "cmd_fb_close f = [SysMunmap, SysClose (cfb_fd f)]"

section \<open>Serving the pixels over 9P\<close>

text \<open>\<open>FBFile.Read\<close>: copy, then a window of the copy; past the end the error is a new error
  whose text is \<open>EOF\<close>, not \<open>io.EOF\<close>.\<close>

definition fbfile_read ::
    "('f \<Rightarrow> bytes) \<Rightarrow> 'f \<Rightarrow> u64 \<Rightarrow> u64 \<Rightarrow> (goerr + bytes) go" where
  "fbfile_read cp f offset count =
     (let pix = cp f in read_window (Err ''EOF'') pix offset count)"

locale copyer =
  fixes cp :: "'f \<Rightarrow> bytes"
    and pixels :: "'f \<Rightarrow> bytes"
  assumes cp_pixels: "cp f = pixels f"
begin

lemma fbfile_window: "fbfile_read cp f = read_window (Err ''EOF'') (pixels f)"
  by (simp add: fun_eq_iff fbfile_read_def cp_pixels)

lemma fbfile_offset_file: "fits (pixels f) \<Longrightarrow> offset_file (fbfile_read cp f) (pixels f)"
  unfolding fbfile_window by (rule offset_file_window)

lemma fbfile_panic_iff:
  "fits (pixels f) \<Longrightarrow> fbfile_read cp f offset count = Panic \<longleftrightarrow>
   unat offset < length (pixels f) \<and> 2 ^ 64 \<le> unat offset + unat count"
  by (simp add: fbfile_window read_window_panic_iff)

lemma fbfile_serves_all:
  assumes "fits (pixels f)" and "\<forall>c \<in> set cs. unat c < 2 ^ 32"
    and "length (pixels f) \<le> sum_list (map unat cs)"
  shows "seq_reads (fbfile_read cp f) 0 cs = pixels f"
  using offset_file.seq_reads_all [OF fbfile_offset_file [OF assms(1)] assms(2,3)] .

end

interpretation rcpud_fb: copyer framebuffer_copy fb_data
  by unfold_locales (simp add: framebuffer_copy_def overwrite_full)

interpretation shared_fb: copyer buf_copy buf_bytes
  by unfold_locales (simp add: buf_copy_def overwrite_full)

interpretation drawsrv_fb: copyer draw_fb_copy dfb_data
  by unfold_locales (simp add: draw_fb_copy_def overwrite_full)

interpretation cmd_drawsrv_fb: copyer cmd_fb_copy cfb_data
  by unfold_locales (simp add: cmd_fb_copy_def overwrite_full)

section \<open>Properties\<close>

lemmas fb_open_defs = open_fb_dumb_impl_def open_fb0_impl_def open_drm_def open_fb0_def
  draw_open_fb_def draw_open_fb0_def cmd_open_fb_def

text \<open>What an opener leaves open: its descriptor on success, nothing on failure.\<close>

lemma drm_open_fds:
  "drm_open path env = (Inl e, t) \<Longrightarrow> open_fds t fds = fds"
  "drm_open path env = (Inr (cr, data, fd), t) \<Longrightarrow> open_fds t fds = fd # fds"
  by (auto simp: drm_open_def Let_def split: sum.splits prod.splits)

lemma fb0_open_fds:
  "fb0_open env = (Inl e, t) \<Longrightarrow> open_fds t fds = fds"
  "fb0_open env = (Inr (i, data, fd), t) \<Longrightarrow> open_fds t fds = fd # fds"
  by (auto simp: fb0_open_def Let_def split: sum.splits prod.splits)

lemmas opener_fds = drm_open_fds fb0_open_fds

lemma open_fds_append: "open_fds (cs @ ds) fds = open_fds ds (open_fds cs fds)"
  by (induction cs fds rule: open_fds.induct) auto

lemma drm_open_env: "drm_open path env = (Inr (cr, data, fd), t) \<Longrightarrow> env_open env = Inr fd"
  by (auto simp: drm_open_def Let_def split: sum.splits prod.splits)

lemma fb0_open_env: "fb0_open env = (Inr (i, data, fd), t) \<Longrightarrow> env_open env = Inr fd"
  by (auto simp: fb0_open_def Let_def split: sum.splits prod.splits)

text \<open>Claim C36. None of the seven framebuffer openers of the three programs and the library leaks a
  descriptor when it fails, at whichever system call. When one succeeds, exactly one more
  descriptor is open: the one it records, in \<open>cmd/rcpud/fb.go\<close>, \<open>internal/fb\<close> and
  \<open>cmd/drawsrv\<close>; the two openers of \<open>drawsrv.go\<close> leave the device's descriptor open as well,
  but their \<open>FB\<close> has no field for it.\<close>

theorem fb_openers_fd_safe:
  "open_fds (snd (open_fb_dumb_impl env)) fds =
     (case fst (open_fb_dumb_impl env) of None \<Rightarrow> fds | Some f \<Rightarrow> fb_fd f # fds)
   \<and> open_fds (snd (open_fb0_impl env)) fds =
     (case fst (open_fb0_impl env) of None \<Rightarrow> fds | Some f \<Rightarrow> fb_fd f # fds)
   \<and> open_fds (snd (open_drm path env)) fds =
     (case fst (open_drm path env) of Inl _ \<Rightarrow> fds | Inr b \<Rightarrow> nat (buf_fd b) # fds)
   \<and> open_fds (snd (open_fb0 env)) fds =
     (case fst (open_fb0 env) of Inl _ \<Rightarrow> fds | Inr b \<Rightarrow> nat (buf_fd b) # fds)
   \<and> open_fds (snd (cmd_open_fb env)) fds =
     (case fst (cmd_open_fb env) of Inl _ \<Rightarrow> fds | Inr f \<Rightarrow> cfb_fd f # fds)
   \<and> open_fds (snd (draw_open_fb path env)) fds =
     (case fst (draw_open_fb path env) of Inl _ \<Rightarrow> fds | Inr f \<Rightarrow> projr (env_open env) # fds)
   \<and> open_fds (snd (draw_open_fb0 env)) fds =
     (case fst (draw_open_fb0 env) of Inl _ \<Rightarrow> fds | Inr f \<Rightarrow> projr (env_open env) # fds)"
  by (auto simp: fb_open_defs opener_fds drm_open_env fb0_open_env split: prod.splits sum.splits)

text \<open>Closing a framebuffer gives its descriptor back in \<open>internal/fb\<close> and in
  \<open>cmd/drawsrv\<close>; the \<open>FB\<close> of \<open>drawsrv.go\<close> has forgotten its descriptor, so after a successful
  open and a close the device is still open.\<close>

lemma fb_close_descriptors:
  "(fst (open_drm path env) = Inr b \<longrightarrow>
      open_fds (snd (open_drm path env) @ buf_close b) fds = fds)
   \<and> (fst (cmd_open_fb env) = Inr c \<longrightarrow>
      open_fds (snd (cmd_open_fb env) @ cmd_fb_close c) fds = fds)
   \<and> (fst (draw_open_fb path env) = Inr d \<longrightarrow>
      (\<exists>fd. open_fds (snd (draw_open_fb path env) @ draw_fb_close d) fds = fd # fds))"
  by (auto simp: fb_open_defs opener_fds open_fds_append buf_close_def cmd_fb_close_def
      draw_fb_close_def split: prod.splits sum.splits)

definition demo_env :: fb_env where
  "demo_env = \<lparr>env_open = Inr 7,
     env_create = Inr \<lparr>cr_w = 2, cr_h = 1, cr_handle = 5, cr_pitch = 8\<rparr>,
     env_map = Inr (0, 8), env_info = Inr (2, 1, 32), env_mmap = Inr [1, 2, 3, 4, 5, 6, 7, 8]\<rparr>"

lemma fb_close_descriptors_example:
  "(\<exists>b c d. fst (open_drm ''/dev/dri/card0'' demo_env) = Inr b \<and> fst (cmd_open_fb demo_env) = Inr c
     \<and> fst (draw_open_fb ''/dev/dri/card0'' demo_env) = Inr d
     \<and> open_fds (snd (open_drm ''/dev/dri/card0'' demo_env) @ buf_close b) [] = []
     \<and> (\<exists>fd. open_fds (snd (draw_open_fb ''/dev/dri/card0'' demo_env) @ draw_fb_close d) [] = [fd]))"
proof -
  obtain b where b: "fst (open_drm ''/dev/dri/card0'' demo_env) = Inr b"
    by (simp add: open_drm_def drm_open_def demo_env_def)
  obtain c where c: "fst (cmd_open_fb demo_env) = Inr c"
    by (simp add: cmd_open_fb_def fb0_open_def demo_env_def)
  obtain d where d: "fst (draw_open_fb ''/dev/dri/card0'' demo_env) = Inr d"
    by (simp add: draw_open_fb_def drm_open_def demo_env_def)
  show ?thesis
    using fb_close_descriptors [of "''/dev/dri/card0''" demo_env b "[]" c d] b c d by blast
qed

text \<open>\<open>Buf.Close\<close> does not clear the descriptor, so closing twice closes the same
  number twice; a zero \<open>Buf\<close> closes descriptor 0.\<close>

lemma buf_close_twice:
  "buf_fd b \<ge> 0 \<Longrightarrow>
     count_list (buf_close b @ buf_close b) (SysClose (nat (buf_fd b))) = 2
     \<and> buf_close \<lparr>buf_data = None, buf_width = 0, buf_height = 0, buf_stride = 0, buf_fd = 0\<rparr>
       = [SysClose 0]"
  by (simp add: buf_close_def)

lemma buf_close_twice_example:
  "count_list (buf_close \<lparr>buf_data = Some [1], buf_width = 1, buf_height = 1, buf_stride = 1, buf_fd = 4\<rparr>
     @ buf_close \<lparr>buf_data = Some [1], buf_width = 1, buf_height = 1, buf_stride = 1, buf_fd = 4\<rparr>)
     (SysClose 4) = 2"
  using buf_close_twice [of "\<lparr>buf_data = Some [1], buf_width = 1, buf_height = 1, buf_stride = 1,
      buf_fd = 4\<rparr>"] by simp

text \<open>Claim C24. A client that reads \<open>/dev/fb/data\<close> from the start with any counts that add up
  to at least its length gets the pixels, each once and in order.\<close>

theorem fbfile_serves_pixels:
  assumes "length (fb_data f) < 2 ^ 63" and "\<forall>c \<in> set cs. unat c < 2 ^ 32"
    and "length (fb_data f) \<le> sum_list (map unat cs)"
  shows "seq_reads (fbfile_read framebuffer_copy f) 0 cs = fb_data f"
  using rcpud_fb.fbfile_serves_all [of f cs] assms by (simp add: fits_def)

definition demo_fb :: framebuffer where
  "demo_fb = \<lparr>fb_data = [10, 20, 30, 40, 50], fb_w = 5, fb_h = 1, fb_stride = 5, fb_fd = 3\<rparr>"

theorem fbfile_serves_pixels_witness:
  "seq_reads (fbfile_read framebuffer_copy demo_fb) 0 [2, 2, 9] = [10, 20, 30, 40, 50]"
  using fbfile_serves_pixels [of demo_fb "[2, 2, 9]"] by (simp add: demo_fb_def)

text \<open>Claim C37. \<open>FBFile.Read\<close> panics exactly when the offset lies inside the pixels and the
  64-bit sum of offset and count wraps around; a 32-bit count, as 9P has, never makes it.\<close>

theorem fbfile_panic_iff_wrap:
  assumes "length (fb_data f) < 2 ^ 63"
  shows "(fbfile_read framebuffer_copy f offset count = Panic \<longleftrightarrow>
      unat offset < length (fb_data f) \<and> 2 ^ 64 \<le> unat offset + unat count)
    \<and> (unat count < 2 ^ 32 \<longrightarrow> fbfile_read framebuffer_copy f offset count \<noteq> Panic)"
  using rcpud_fb.fbfile_panic_iff [of f offset count] assms by (simp add: fits_def)

theorem fbfile_panic_iff_wrap_witness:
  "fbfile_read framebuffer_copy demo_fb 1 0xFFFFFFFFFFFFFFFF = Panic"
  using fbfile_panic_iff_wrap [of demo_fb 1 "0xFFFFFFFFFFFFFFFF"] by (simp add: demo_fb_def)

text \<open>The stride and the size that \<open>/dev/fb0\<close> is mapped with do not overflow for any
  16-bit screen dimensions: they are the products over the natural numbers.\<close>

lemma fb0_size_exact:
  assumes "unat x < 2 ^ 16" and "unat y < 2 ^ 16"
  shows "unat (fb0_stride x bpp) = unat x * (unat bpp div 8)
    \<and> unat (fb0_size x y bpp) = unat x * (unat bpp div 8) * unat y"
proof -
  have ext: "unat (ucast v :: u64) = unat v" for v :: u32
    using unat_u32_less [of v] by (simp add: unsigned_ucast_eq take_bit_nat_eq_self)
  have bpp: "unat bpp div 8 < 2 ^ 29"
    using unat_u32_less [of bpp] by (simp add: div_less_iff_less_mult)
  have "unat x * (unat bpp div 8) \<le> 2 ^ 16 * 2 ^ 29"
    using assms(1) bpp by (intro mult_le_mono) simp_all
  then have s: "unat (fb0_stride x bpp) = unat x * (unat bpp div 8)"
    and le: "unat x * (unat bpp div 8) \<le> 2 ^ 45"
    using bpp by (simp_all add: fb0_stride_def unat_word_ariths unat_div_distrib ext)
  have "unat x * (unat bpp div 8) * unat y \<le> 2 ^ 45 * 2 ^ 16"
    using assms(2) le by (intro mult_le_mono) simp_all
  then show ?thesis
    using s by (simp add: fb0_size_def unat_word_ariths ext)
qed

lemma fb0_size_exact_example: "unat (fb0_size 1920 1080 32) = 1920 * 4 * 1080"
  using fb0_size_exact [of 1920 1080 32] by simp

end
