(* ===== verification/Wsysmsg.thy ===== *)
theory Wsysmsg
  imports Go_Binary Net_Conn
begin

text \<open>
  The wsysmsg codec of \<open>drawsrv.go\<close>: the message record \<open>M\<close>, \<open>size\<close>, \<open>wenc\<close>, \<open>wdec\<close> and the
  string helpers \<open>pstr\<close> and \<open>gstr\<close>. Go strings are byte lists here. A write into a buffer at
  an offset out of range is a panic, so the encoder returns the buffer inside \<open>go\<close>.
\<close>

section \<open>Messages\<close>

definition Rerror :: u8 where "Rerror = 1"
definition Trdmouse :: u8 where "Trdmouse = 2"
definition Rrdmouse :: u8 where "Rrdmouse = 3"
definition Tmoveto :: u8 where "Tmoveto = 4"
definition Rmoveto :: u8 where "Rmoveto = 5"
definition Tbouncemouse :: u8 where "Tbouncemouse = 8"
definition Rbouncemouse :: u8 where "Rbouncemouse = 9"
definition Trdkbd :: u8 where "Trdkbd = 10"
definition Rrdkbd :: u8 where "Rrdkbd = 11"
definition Tinit :: u8 where "Tinit = 14"
definition Rinit :: u8 where "Rinit = 15"
definition Trddraw :: u8 where "Trddraw = 20"
definition Rrddraw :: u8 where "Rrddraw = 21"
definition Ttop :: u8 where "Ttop = 24"

lemmas wsys_codes = Rerror_def Trdmouse_def Rrdmouse_def Tmoveto_def Rmoveto_def
  Tbouncemouse_def Rbouncemouse_def Trdkbd_def Rrdkbd_def Tinit_def Rinit_def Trddraw_def
  Rrddraw_def Ttop_def

record msg =
  mT :: u8
  mTag :: u8
  mX :: i32
  mY :: i32
  mB :: i32
  mMs :: u32
  mR :: i32
  mN :: u32
  mD :: bytes
  mWs :: bytes
  mLbl :: bytes

text \<open>The zero value of the struct.\<close>

definition msg0 :: msg where
  "msg0 = \<lparr>mT = 0, mTag = 0, mX = 0, mY = 0, mB = 0, mMs = 0, mR = 0, mN = 0, mD = [],
           mWs = [], mLbl = []\<rparr>"

section \<open>Writing into a buffer\<close>

text \<open>\<open>p32(b[n:], v)\<close> and \<open>p16\<close> write all their bytes or panic; \<open>copy(b[n:], s)\<close> writes what
  fits and panics only when \<open>b[n:]\<close> does.\<close>

definition put_bytes :: "bytes \<Rightarrow> nat \<Rightarrow> bytes \<Rightarrow> bytes go" where
  "put_bytes b n bs = (if n + length bs \<le> length b then Ret (overwrite b n bs) else Panic)"

definition copy_bytes :: "bytes \<Rightarrow> nat \<Rightarrow> bytes \<Rightarrow> bytes go" where
  "copy_bytes b n bs = (if n \<le> length b then Ret (overwrite b n bs) else Panic)"

definition p32 :: "bytes \<Rightarrow> nat \<Rightarrow> u32 \<Rightarrow> bytes go" where
  "p32 b n v = put_bytes b n (put_be32 v)"

definition p16 :: "bytes \<Rightarrow> nat \<Rightarrow> u16 \<Rightarrow> bytes go" where
  "p16 b n v = put_bytes b n (put_be16 v)"

text \<open>\<open>g32(b[n:])\<close> and \<open>g16\<close>.\<close>

definition g32 :: "bytes \<Rightarrow> nat \<Rightarrow> u32 go" where
  "g32 b n =
     (if n + 4 \<le> length b then Ret (be32 (b ! n) (b ! (n + 1)) (b ! (n + 2)) (b ! (n + 3)))
      else Panic)"

definition g16 :: "bytes \<Rightarrow> nat \<Rightarrow> u16 go" where
  "g16 b n = (if n + 2 \<le> length b then Ret (be16 (b ! n) (b ! (n + 1))) else Panic)"

definition pstr :: "bytes \<Rightarrow> nat \<Rightarrow> bytes \<Rightarrow> (nat \<times> bytes) go" where
  "pstr b n s =
     go_bind (p16 b n (of_nat (length s))) (\<lambda>b.
     go_bind (copy_bytes b (n + 2) s) (\<lambda>b. Ret (2 + length s, b)))"

definition gstr :: "bytes \<Rightarrow> nat \<Rightarrow> (nat \<times> bytes) go" where
  "gstr b off =
     (if off + 2 > length b then Ret (off, [])
      else go_bind (g16 b off) (\<lambda>v.
        let n = unat v; off2 = off + 2;
            n2 = (if off2 + n > length b then length b - off2 else n)
        in go_bind (go_slice b off2 (off2 + n2)) (\<lambda>s. Ret (off2 + n2, s))))"

section \<open>size, wenc, wdec\<close>

definition size_msg :: "msg \<Rightarrow> nat" where
  "size_msg m =
     2 + (if mT m = Rrdmouse then 17
          else if mT m = Rrdkbd then 2
          else if mT m = Rrddraw then 4 + unat (mN m)
          else if mT m = Rerror then 2 + length (mLbl m)
          else 0)"

definition wenc :: "msg \<Rightarrow> bytes \<Rightarrow> (nat \<times> bytes) go" where
  "wenc m b =
     go_bind (put_bytes b 0 [mT m, mTag m]) (\<lambda>b.
     if mT m = Rrdmouse then
       go_bind (p32 b 2 (mX m)) (\<lambda>b.
       go_bind (p32 b 6 (mY m)) (\<lambda>b.
       go_bind (p32 b 10 (mB m)) (\<lambda>b.
       go_bind (p32 b 14 (mMs m)) (\<lambda>b.
       go_bind (put_bytes b 18 [0]) (\<lambda>b. Ret (19, b))))))
     else if mT m = Rrdkbd then
       go_bind (p16 b 2 (ucast (mR m))) (\<lambda>b. Ret (4, b))
     else if mT m = Rrddraw then
       go_bind (p32 b 2 (mN m)) (\<lambda>b.
       go_bind (go_slice (mD m) 0 (unat (mN m))) (\<lambda>d.
       go_bind (copy_bytes b 6 d) (\<lambda>b. Ret (6 + unat (mN m), b))))
     else if mT m = Rerror then
       go_bind (pstr b 2 (mLbl m)) (\<lambda>(k, b). Ret (2 + k, b))
     else Ret (2, b))"

text \<open>The decoder fills the message it is given and returns the offset it stopped at, \<open>-1\<close> for a
  buffer without type and tag.\<close>

definition wdec :: "bytes \<Rightarrow> msg \<Rightarrow> (int \<times> msg) go" where
  "wdec b m =
     (if length b < 2 then Ret (- 1, m)
      else let m = m\<lparr>mT := b ! 0, mTag := b ! 1\<rparr> in
        if mT m = Tinit then
          go_bind (gstr b 2) (\<lambda>(n, ws).
          go_bind (gstr b n) (\<lambda>(n, lbl).
          go_bind (gstr b n) (\<lambda>_. Ret (int n, m\<lparr>mWs := ws, mLbl := lbl\<rparr>))))
        else if mT m = Trdmouse \<or> mT m = Trdkbd \<or> mT m = Ttop then Ret (2, m)
        else if mT m = Tmoveto then
          (if 2 + 8 \<le> length b then
             go_bind (g32 b 2) (\<lambda>x. go_bind (g32 b 6) (\<lambda>y. Ret (10, m\<lparr>mX := x, mY := y\<rparr>)))
           else Ret (2, m))
        else if mT m = Trddraw then
          (if 2 + 4 \<le> length b then go_bind (g32 b 2) (\<lambda>v. Ret (6, m\<lparr>mN := v\<rparr>))
           else Ret (2, m))
        else Ret (2, m))"

section \<open>The bytes of a message\<close>

text \<open>The wire form: type, tag and the payload of the reply kinds that have one.\<close>

definition payload :: "msg \<Rightarrow> bytes" where
  "payload m =
     (if mT m = Rrdmouse then put_be32 (mX m) @ put_be32 (mY m) @ put_be32 (mB m) @ put_be32 (mMs m) @ [0]
      else if mT m = Rrdkbd then put_be16 (ucast (mR m))
      else if mT m = Rrddraw then put_be32 (mN m) @ take (unat (mN m)) (mD m)
      else if mT m = Rerror then put_be16 (of_nat (length (mLbl m))) @ mLbl m
      else [])"

definition wire :: "msg \<Rightarrow> bytes" where
  "wire m = [mT m, mTag m] @ payload m"

text \<open>A message whose data is there: the only condition the encoder needs.\<close>

definition data_ok :: "msg \<Rightarrow> bool" where
  "data_ok m \<longleftrightarrow> (mT m = Rrddraw \<longrightarrow> unat (mN m) \<le> length (mD m))"

text \<open>Filling a buffer from the left, one field after the other.\<close>

lemma fill_step:
  assumes "length zs = length bs + r"
  shows "put_bytes (pre @ zs) (length pre) bs = Ret (pre @ bs @ drop (length bs) zs)"
  using assms by (simp add: put_bytes_def overwrite_append)

lemma fill_copy:
  assumes "length zs = length bs + r"
  shows "copy_bytes (pre @ zs) (length pre) bs = Ret (pre @ bs @ drop (length bs) zs)"
  using assms by (simp add: copy_bytes_def overwrite_append)

lemma length_wire: "data_ok m \<Longrightarrow> length (wire m) = size_msg m"
  by (auto simp: wire_def payload_def size_msg_def data_ok_def wsys_codes)

text \<open>Two writes one after the other are one write of both, which is how the encoder's chain of
  \<open>p32\<close> calls is folded into one.\<close>

lemma put_put:
  assumes "n' = n + length xs" and "n + length xs + length ys \<le> length b"
  shows "go_bind (put_bytes b n xs) (\<lambda>b. go_bind (put_bytes b n' ys) f)
    = go_bind (put_bytes b n (xs @ ys)) f"
proof -
  have "overwrite (overwrite b n xs) (n + length xs) ys = overwrite b n (xs @ ys)"
  proof -
    define pre zs where "pre = take n b" and "zs = drop n b"
    then have b: "b = pre @ zs" "n = length pre" using assms(2) by auto
    show ?thesis
      using overwrite_append [of xs zs pre] overwrite_append [of ys "drop (length xs) zs" "pre @ xs"]
        overwrite_append [of "xs @ ys" zs pre] assms(2) unfolding b
      by (simp add: add.commute)
  qed
  then show ?thesis using assms by (simp add: put_bytes_def)
qed

lemma put_copy:
  assumes "n' = n + length xs" and "n + length xs + length ys \<le> length b"
  shows "go_bind (put_bytes b n xs) (\<lambda>b. go_bind (copy_bytes b n' ys) f)
    = go_bind (put_bytes b n (xs @ ys)) f"
  using put_put [OF assms, of f] assms by (simp add: put_bytes_def copy_bytes_def)

lemma put_all: "length bs \<le> length b \<Longrightarrow> put_bytes b 0 bs = Ret (bs @ drop (length bs) b)"
  by (simp add: put_bytes_def overwrite_def)

lemma put_after:
  assumes "n = 2 + length pre" and "length bs \<le> length zs"
  shows "put_bytes (x # y # pre @ zs) n bs = Ret (x # y # (pre @ bs) @ drop (length bs) zs)"
  using fill_step [of zs bs "length zs - length bs" "[x, y] @ pre"] assms by simp

lemma copy_after:
  assumes "n = 2 + length pre" and "length bs \<le> length zs"
  shows "copy_bytes (x # y # pre @ zs) n bs = Ret (x # y # (pre @ bs) @ drop (length bs) zs)"
  using fill_copy [of zs bs "length zs - length bs" "[x, y] @ pre"] assms by simp

lemma put_after_two:
  "length bs \<le> length zs \<Longrightarrow> put_bytes (x # y # zs) 2 bs = Ret (x # y # bs @ drop (length bs) zs)"
  using put_after [of 2 "[]" bs zs] by simp

lemma wenc_wire:
  assumes "data_ok m" and "size_msg m \<le> length b"
  shows "wenc m b = Ret (size_msg m, wire m @ drop (size_msg m) b)"
proof -
  consider "mT m = Rrdmouse" | "mT m = Rrdkbd" | "mT m = Rrddraw" | "mT m = Rerror"
    | "mT m \<notin> {Rrdmouse, Rrdkbd, Rrddraw, Rerror}" by blast
  then show ?thesis
  proof cases
    case 1
    then show ?thesis using assms(2)
      by (simp add: wenc_def p32_def put_all put_after_two put_after size_msg_def wire_def
          payload_def wsys_codes flip: append_assoc)
  next
    case 2
    then show ?thesis using assms(2)
      by (simp add: wenc_def p16_def put_all put_after_two size_msg_def wire_def payload_def wsys_codes)
  next
    case 3
    then have d: "go_slice (mD m) 0 (unat (mN m)) = Ret (take (unat (mN m)) (mD m))"
      using assms(1) by (simp add: data_ok_def go_slice_Ret)
    have l: "length (take (unat (mN m)) (mD m)) = unat (mN m)"
      using 3 assms(1) by (simp add: data_ok_def)
    show ?thesis using assms(2) 3 l
      by (simp add: wenc_def p32_def put_put put_copy put_all put_after_two copy_after
          size_msg_def wire_def payload_def d wsys_codes add.commute [of "unat (mN m)" 6])
  next
    case 4
    then show ?thesis using assms(2)
      by (simp add: wenc_def pstr_def p16_def put_put put_copy put_all put_after_two copy_after
          size_msg_def wire_def payload_def wsys_codes) (simp add: eval_nat_numeral)
  next
    case 5
    then show ?thesis using assms(2)
      by (simp add: wenc_def put_all size_msg_def wire_def payload_def numeral_2_eq_2)
  qed
qed


section \<open>Decoding\<close>

text \<open>\<open>gstr\<close> stays inside its buffer whatever the length field says, and inverts \<open>pstr\<close>.\<close>

lemma gstr_total:
  assumes "off \<le> length b"
  obtains n s where "gstr b off = Ret (n, s)" and "off \<le> n" and "n \<le> length b"
proof (cases "off + 2 > length b")
  case True
  then show ?thesis using that [of off "[]"] assms by (simp add: gstr_def)
next
  case False
  define v where "v = be16 (b ! off) (b ! (off + 1))"
  define n where "n = (if off + 2 + unat v > length b then length b - (off + 2) else unat v)"
  have n: "off + 2 + n \<le> length b" using False by (auto simp: n_def)
  then have "gstr b off = Ret (off + 2 + n, take n (drop (off + 2) b))"
    using False unfolding gstr_def g16_def by (simp add: Let_def v_def n_def go_slice_Ret)
  then show ?thesis using that n by auto
qed

lemma gstr_put:
  assumes "length s < 65536"
  shows "gstr (pre @ put_be16 (of_nat (length s)) @ s @ post) (length pre)
    = Ret (length pre + 2 + length s, s)"
proof -
  have "be16 (ucast (drop_bit 8 v)) (ucast v) = v" for v by (rule be16_put)
  then show ?thesis using assms
    by (simp add: gstr_def g16_def put_be16_def nth_append Let_def go_slice_Ret)
qed

lemma wdec_no_panic: "wdec b m \<noteq> Panic"
proof (cases "length b < 2")
  case True
  then show ?thesis by (simp add: wdec_def)
next
  case False
  then obtain n1 s1 where g1: "gstr b 2 = Ret (n1, s1)" "n1 \<le> length b"
    using gstr_total [of 2 b] by (metis linorder_not_less)
  obtain n2 s2 where g2: "gstr b n1 = Ret (n2, s2)" "n2 \<le> length b"
    using gstr_total [OF g1(2)] by blast
  obtain n3 s3 where "gstr b n2 = Ret (n3, s3)"
    using gstr_total [OF g2(2)] by blast
  with g1(1) g2(1) False show ?thesis by (simp add: wdec_def Let_def g32_def)
qed

lemma wdec_frame:
  assumes "wdec b m = Ret (n, m')" and "2 \<le> length b"
  shows "mT m' = b ! 0" and "mTag m' = b ! 1" and "mB m' = mB m" and "mD m' = mD m"
  using assms by (auto simp: wdec_def Let_def go_simps split: if_splits)

lemma wdec_moveto:
  "wdec ([Tmoveto, tag] @ put_be32 x @ put_be32 y @ post) m
   = Ret (10, m\<lparr>mT := Tmoveto, mTag := tag, mX := x, mY := y\<rparr>)"
proof -
  have "g32 (Tmoveto # tag # put_be32 x @ put_be32 y @ post) 2 = Ret x"
    and "g32 (Tmoveto # tag # put_be32 x @ put_be32 y @ post) 6 = Ret y"
    by (simp_all add: g32_def put_be32_def be32_put)
  then show ?thesis by (simp add: wdec_def wsys_codes)
qed

lemma wdec_moveto_short:
  "length post < 8 \<Longrightarrow> wdec ([Tmoveto, tag] @ post) m = Ret (2, m\<lparr>mT := Tmoveto, mTag := tag\<rparr>)"
  by (simp add: wdec_def wsys_codes)

lemma wdec_init:
  assumes "length ws < 65536" and "length lbl < 65536"
  shows "wdec ([Tinit, tag] @ put_be16 (of_nat (length ws)) @ ws
      @ put_be16 (of_nat (length lbl)) @ lbl @ post) m
    = Ret (int (6 + length ws + length lbl),
           m\<lparr>mT := Tinit, mTag := tag, mWs := ws, mLbl := lbl\<rparr>)"
proof -
  let ?w = "put_be16 (of_nat (length ws)) @ ws" and ?l = "put_be16 (of_nat (length lbl)) @ lbl"
  let ?b = "Tinit # tag # ?w @ ?l @ post"
  have 1: "gstr ?b 2 = Ret (4 + length ws, ws)"
    using gstr_put [OF assms(1), of "[Tinit, tag]" "?l @ post"] by (simp add: numeral_2_eq_2)
  have 2: "gstr ?b (4 + length ws) = Ret (6 + length ws + length lbl, lbl)"
    using gstr_put [OF assms(2), of "[Tinit, tag] @ ?w" post] by (simp add: eval_nat_numeral)
  have "6 + length ws + length lbl \<le> length ?b" by simp
  then obtain n s where "gstr ?b (6 + length ws + length lbl) = Ret (n, s)"
    using gstr_total by blast
  with 1 2 show ?thesis by (simp add: wdec_def wsys_codes)
qed


section \<open>The contract of a codec\<close>

text \<open>
  What the two draw servers need of \<open>size\<close>, \<open>wenc\<close> and \<open>wdec\<close>: the encoder fills a buffer of
  the computed size with the wire form, the decoder never panics, reads type and tag, and
  leaves the fields it does not know alone. \<open>send_frame\<close> is the end of the handlers: a buffer of
  \<open>4 + size\<close> bytes with the size in front.
\<close>

definition frame :: "bytes \<Rightarrow> bytes" where
  "frame body = put_be32 (of_nat (length body)) @ body"

definition send_frame ::
    "(msg \<Rightarrow> nat) \<Rightarrow> (msg \<Rightarrow> bytes \<Rightarrow> (nat \<times> bytes) go) \<Rightarrow> msg \<Rightarrow> bytes go" where
  "send_frame sz enc r =
     (let rs = sz r; rb = replicate (rs + 4) 0 in
      go_bind (p32 rb 0 (of_nat rs)) (\<lambda>rb.
      go_bind (go_slice rb 4 (length rb)) (\<lambda>body.
      go_bind (enc r body) (\<lambda>(_, body). Ret (take 4 rb @ body)))))"

locale wsys_codec =
  fixes sz :: "msg \<Rightarrow> nat"
    and enc :: "msg \<Rightarrow> bytes \<Rightarrow> (nat \<times> bytes) go"
    and dec :: "bytes \<Rightarrow> msg \<Rightarrow> (int \<times> msg) go"
  assumes sz_wire: "data_ok m \<Longrightarrow> sz m = length (wire m)"
    and enc_wire: "data_ok m \<Longrightarrow> sz m \<le> length b \<Longrightarrow>
      enc m b = Ret (sz m, wire m @ drop (sz m) b)"
    and dec_ret: "dec b m \<noteq> Panic"
    and dec_head: "dec b m = Ret (n, m') \<Longrightarrow> 2 \<le> length b \<Longrightarrow>
      mT m' = b ! 0 \<and> mTag m' = b ! 1 \<and> mB m' = mB m"
begin

lemma send_frame_wire: "data_ok r \<Longrightarrow> send_frame sz enc r = Ret (frame (wire r))"
  by (simp add: send_frame_def p32_def put_all go_slice_Ret enc_wire sz_wire frame_def)

lemma dec_some:
  obtains n m' where "dec b m = Ret (n, m')"
  using dec_ret [of b m] by (cases "dec b m") auto

end

interpretation draw_codec: wsys_codec size_msg wenc wdec
proof unfold_locales
  fix m m' :: msg and b :: bytes and n :: int
  show "data_ok m \<Longrightarrow> size_msg m = length (wire m)" by (simp add: length_wire)
  show "data_ok m \<Longrightarrow> size_msg m \<le> length b \<Longrightarrow>
      wenc m b = Ret (size_msg m, wire m @ drop (size_msg m) b)" by (rule wenc_wire)
  show "wdec b m \<noteq> Panic" by (rule wdec_no_panic)
  show "wdec b m = Ret (n, m') \<Longrightarrow> 2 \<le> length b \<Longrightarrow>
      mT m' = b ! 0 \<and> mTag m' = b ! 1 \<and> mB m' = mB m" using wdec_frame by blast
qed

end
