(* ===== verification/Uinput.thy ===== *)
theory Uinput
  imports Framebuffer Net_Conn Go_Binary
begin

text \<open>
  The virtual mouse and keyboard of \<open>drawsrv.go\<close> (\<open>UI\<close>, \<open>Kbd\<close>) and the mouse of
  \<open>cmd/drawsrv/main.go\<close>: how the devices are opened, the input events each operation writes,
  and the keyboard connection handler. The answers of the kernel are fields of \<open>uinput_env\<close>;
  an opener returns its result and the system calls it made.
\<close>

section \<open>Devices\<close>

text \<open>An \<open>input_event\<close>: type, code, value.\<close>

type_synonym ev = "u16 \<times> u16 \<times> i32"

record uinput =
  u_fd :: int
  u_evs :: "ev list"     \<comment> \<open>written so far\<close>

record uinput_env =
  uenv_open :: "string + nat"
  uenv_setup :: "string option"
  uenv_create :: "string option"

text \<open>The local function \<open>ub\<close>: a bit map of \<open>k\<close> words with the given bits, passed to an ioctl.\<close>

definition bit_map :: "nat \<Rightarrow> nat list \<Rightarrow> u32 list" where
  "bit_map k bits = foldl (\<lambda>b v. b[v div 32 := b ! (v div 32) OR push_bit (v mod 32) 1]) (replicate k 0) bits"

definition ub :: "nat \<Rightarrow> nat \<Rightarrow> nat \<Rightarrow> nat list \<Rightarrow> syscall" where
  "ub fd k req bits = SysIoctl fd req (map unat (bit_map k bits))"

text \<open>The setup structure: 80 bytes of name, then bus, vendor, product and version.\<close>

definition user_dev :: "string \<Rightarrow> nat \<Rightarrow> nat list" where
  "user_dev name pd = overwrite (replicate 80 0) 0 (map of_char name) @ [3, 0x9f9f, pd, 1]"

text \<open>The end of both openers: set the device up, create it, close it when either fails.\<close>

definition finish_open ::
    "uinput_env \<Rightarrow> nat \<Rightarrow> string \<Rightarrow> nat \<Rightarrow> syscall list \<Rightarrow> (string + uinput) \<times> syscall list" where
  "finish_open env fd name pd t =
     (let t1 = t @ [SysIoctl fd 0x5503 (user_dev name pd)] in
      case uenv_setup env of
        Some e \<Rightarrow> (Inl e, t1 @ [SysClose fd])
      | None \<Rightarrow>
          let t2 = t1 @ [SysIoctl fd 0x5501 []] in
          case uenv_create env of
            Some e \<Rightarrow> (Inl e, t2 @ [SysClose fd])
          | None \<Rightarrow> (Inr \<lparr>u_fd = int fd, u_evs = []\<rparr>, t2))"

text \<open>\<open>ai{V, Mn, Mx, Fz, Fl, R}\<close> with only the maximum set.\<close>

definition abs_info :: "nat \<Rightarrow> nat list" where
  "abs_info mx = [0, 0, mx, 0, 0, 0]"

definition open_ui :: "uinput_env \<Rightarrow> (string + uinput) \<times> syscall list" where
  "open_ui env =
     (case uenv_open env of
        Inl e \<Rightarrow> (Inl e, [SysOpenFail ''/dev/uinput''])
      | Inr fd \<Rightarrow>
          finish_open env fd ''drawsrv-mouse'' 1
            [SysOpen ''/dev/uinput'' fd,
             ub fd 16 0x40045564 [1, 3, 0],
             ub fd 16 0x40045565 [0x110, 0x111, 0x112],
             ub fd 16 0x40045567 [0, 1],
             SysIoctl fd 0x40085560 (abs_info 8000),
             SysIoctl fd 0x40085561 (abs_info 4000)])"

text \<open>The keys the keyboard enables, the list \<open>common\<close> of \<open>openKbd\<close>.\<close>

definition common_keys :: "nat list" where
  "common_keys =
    [1, 2, 3, 4, 5, 6, 7, 8, 9, 10, 11, 12, 13, 14, 15, 16, 17, 18, 19, 20, 21, 22, 23,
     24, 25, 26, 27, 28, 29, 30, 31, 32, 33, 34, 35, 36, 37, 38, 39, 40, 41, 42, 43, 44,
     45, 46, 47, 48, 49, 50, 51, 52, 53, 54, 55, 56, 57, 58, 97, 100, 102, 103, 104,
     105, 106, 107, 108, 109, 110, 111]"

definition open_kbd :: "uinput_env \<Rightarrow> (string + uinput) \<times> syscall list" where
  "open_kbd env =
     (case uenv_open env of
        Inl e \<Rightarrow> (Inl e, [SysOpenFail ''/dev/uinput''])
      | Inr fd \<Rightarrow>
          finish_open env fd ''drawsrv-kbd'' 2
            ([SysOpen ''/dev/uinput'' fd, ub fd 64 0x40045564 [1, 0]]
             @ map (\<lambda>k. ub fd 64 0x40045565 [k]) common_keys))"

section \<open>Events\<close>

definition ui_ev :: "u16 \<Rightarrow> u16 \<Rightarrow> i32 \<Rightarrow> uinput \<Rightarrow> uinput" where
  "ui_ev t c v u = u\<lparr>u_evs := u_evs u @ [(t, c, v)]\<rparr>"

definition ui_move :: "i32 \<Rightarrow> i32 \<Rightarrow> uinput \<Rightarrow> uinput" where
  "ui_move x y u = ui_ev 0 0 0 (ui_ev 3 1 y (ui_ev 3 0 x u))"

text \<open>The shifts of \<open>Btns\<close> are on a signed value; bits 1 and 2 are the same either way.\<close>

definition ui_btns :: "i32 \<Rightarrow> uinput \<Rightarrow> uinput" where
  "ui_btns b u =
     ui_ev 0 0 0 (ui_ev 1 0x112 (signed_drop_bit 2 b AND 1)
       (ui_ev 1 0x111 (signed_drop_bit 1 b AND 1) (ui_ev 1 0x110 (b AND 1) u)))"

definition ui_close :: "uinput \<Rightarrow> syscall list" where
  "ui_close u =
     (if u_fd u \<ge> 0 then [SysIoctl (nat (u_fd u)) 0x5502 [], SysClose (nat (u_fd u))] else [])"

text \<open>The map \<open>p9k\<close> from Plan 9 scan codes to Linux key codes.\<close>

definition p9k_table :: "(int \<times> nat) list" where
  "p9k_table =
    [(1,1), (2,2), (3,3), (4,4), (5,5), (6,6), (7,7), (8,8), (9,9), (10,10), (11,11),
     (12,12), (13,13), (14,14), (15,15), (16,16), (17,17), (18,18), (19,19), (20,20),
     (21,21), (22,22), (23,23), (24,24), (25,25), (26,26), (27,27), (28,28), (29,29),
     (30,30), (31,31), (32,32), (33,33), (34,34), (35,35), (36,36), (37,37), (38,38),
     (39,39), (40,40), (41,41), (42,42), (43,43), (44,44), (45,45), (46,46), (47,47),
     (48,48), (49,49), (50,50), (51,51), (52,52), (53,53), (54,54), (55,55), (56,56),
     (57,57), (58,58), (97,97), (100,100), (102,102), (103,103), (104,104), (105,105),
     (106,106), (107,107), (108,108), (109,109), (110,110), (111,111)]"

definition p9k :: "int \<Rightarrow> nat option" where
  "p9k sc = map_of p9k_table sc"

definition kbd_sync :: "uinput \<Rightarrow> uinput" where
  "kbd_sync k = k\<lparr>u_evs := u_evs k @ [(0, 0, 0)]\<rparr>"

definition kbd_ev :: "u16 \<Rightarrow> u16 \<Rightarrow> i32 \<Rightarrow> uinput \<Rightarrow> uinput" where
  "kbd_ev t c v k =
     (let k = k\<lparr>u_evs := u_evs k @ [(t, c, v)]\<rparr> in if t = 1 then kbd_sync k else k)"

definition kbd_key :: "int \<Rightarrow> uinput \<Rightarrow> uinput" where
  "kbd_key sc k =
     (if 0 \<le> sc \<and> sc < 128 then
        (case p9k sc of Some lk \<Rightarrow> kbd_ev 1 (of_nat lk) 1 k | None \<Rightarrow> k)
      else if sc < 256 then
        (case p9k (sc - 128) of Some lk \<Rightarrow> kbd_ev 1 (of_nat lk) 0 k | None \<Rightarrow> k)
      else k)"

definition kbd_close :: "uinput \<Rightarrow> syscall list" where
  "kbd_close k =
     (if u_fd k \<ge> 0 then [SysIoctl (nat (u_fd k)) 0x5502 [], SysClose (nat (u_fd k))] else [])"

section \<open>The keyboard connection\<close>

text \<open>\<open>handleKbd\<close>: one \<open>Read\<close> into the four bytes of \<open>h\<close>, which keep what a short read does not
  overwrite, then the scan code in them. The handler closes the connection when a read fails.\<close>

definition scancode :: "bytes \<Rightarrow> int" where
  "scancode h = int (unat (le32 (h ! 0) (h ! 1) (h ! 2) (h ! 3)))"

function handle_kbd :: "bytes \<Rightarrow> u8 conn \<Rightarrow> uinput \<Rightarrow> u8 conn \<times> uinput" where
  "handle_kbd h c k =
     (case conn_read 4 c of
        ((bs, Some e), c') \<Rightarrow> (c', k)
      | ((bs, None), c') \<Rightarrow>
          let h' = overwrite h 0 bs in handle_kbd h' c' (kbd_key (scancode h') k))"
  by pat_completeness auto
termination
  by (relation "measure (\<lambda>(h, c, k). length (pending c))")
    (auto dest!: sym [THEN conn_read_shrinks])

declare handle_kbd.simps [simp del]


section \<open>Bit maps and descriptors\<close>

lemma length_bit_map [simp]: "length (bit_map k bits) = k"
proof -
  have "length (foldl (\<lambda>b v. b[v div 32 := b ! (v div 32) OR push_bit (v mod 32) 1]) b bits)
      = length b" for b :: "u32 list"
    by (induction bits arbitrary: b) auto
  then show ?thesis by (simp add: bit_map_def)
qed

lemma bit_map_bit:
  assumes "v < 32 * k"
  shows "bit (bit_map k bits ! (v div 32)) (v mod 32) \<longleftrightarrow> v \<in> set bits"
proof -
  have d: "v div 32 < k" using assms by (simp add: less_mult_imp_div_less mult.commute)
  have "bit (foldl (\<lambda>b v. b[v div 32 := b ! (v div 32) OR push_bit (v mod 32) 1]) b bits ! (v div 32))
      (v mod 32) \<longleftrightarrow> v \<in> set bits \<or> bit (b ! (v div 32)) (v mod 32)"
    if "length b = k" for b :: "u32 list"
    using that
  proof (induction bits arbitrary: b)
    case Nil
    show ?case by simp
  next
    case (Cons u bits)
    have vu: "v = u \<longleftrightarrow> v div 32 = u div 32 \<and> v mod 32 = u mod 32"
      by (metis div_mult_mod_eq)
    have "bit (b[u div 32 := b ! (u div 32) OR push_bit (u mod 32) 1] ! (v div 32)) (v mod 32)
        \<longleftrightarrow> v = u \<or> bit (b ! (v div 32)) (v mod 32)"
    proof (cases "v div 32 = u div 32")
      case True
      then show ?thesis using d Cons.prems vu by (auto simp: bit_simps)
    next
      case False
      then show ?thesis using vu by simp
    qed
    then show ?case
      using Cons.IH [of "b[u div 32 := b ! (u div 32) OR push_bit (u mod 32) 1]"] Cons.prems
      by auto
  qed
  then show ?thesis using d by (simp add: bit_map_def)
qed

lemma open_fds_ub [simp]:
  "open_fds (ub fd k r bits # cs) fds = open_fds cs fds"
  "open_fds (map (\<lambda>x. ub fd k r (f x)) xs) fds = fds"
  by (simp add: ub_def) (induction xs; simp add: ub_def)

lemma finish_open_fds:
  "open_fds (snd (finish_open env fd name pd t)) fds =
     (case fst (finish_open env fd name pd t) of
        Inl _ \<Rightarrow> remove1 fd (open_fds t fds) | Inr u \<Rightarrow> open_fds t fds)"
  by (auto simp: finish_open_def open_fds_append Let_def split: option.split)

lemma finish_open_fd: "fst (finish_open env fd name pd t) = Inr u \<Longrightarrow> u_fd u = int fd \<and> u_evs u = []"
  by (auto simp: finish_open_def Let_def split: option.splits)

text \<open>Opening the virtual mouse and keyboard leaves no descriptor open when any step
  fails, one when it succeeds, and closing the device gives that one back.\<close>

lemma uinput_fds:
  "open_fds (snd (open_ui env)) fds =
     (case fst (open_ui env) of Inl _ \<Rightarrow> fds | Inr u \<Rightarrow> nat (u_fd u) # fds)
   \<and> open_fds (snd (open_kbd env)) fds =
     (case fst (open_kbd env) of Inl _ \<Rightarrow> fds | Inr u \<Rightarrow> nat (u_fd u) # fds)
   \<and> (case fst (open_ui env) of Inl _ \<Rightarrow> True
      | Inr u \<Rightarrow> open_fds (snd (open_ui env) @ ui_close u) fds = fds)
   \<and> (case fst (open_kbd env) of Inl _ \<Rightarrow> True
      | Inr u \<Rightarrow> open_fds (snd (open_kbd env) @ kbd_close u) fds = fds)"
  by (auto simp: open_ui_def open_kbd_def finish_open_fds open_fds_append ui_close_def kbd_close_def
      dest!: finish_open_fd split: sum.split)

section \<open>Keys\<close>

text \<open>The events of one scan code: press below 128, release below 256, each with its
  synchronisation event.\<close>

definition key_events :: "int \<Rightarrow> ev list" where
  "key_events sc =
     (if sc \<in> int ` set common_keys then [(1, of_nat (nat sc), 1), (0, 0, 0)]
      else if sc - 128 \<in> int ` set common_keys then [(1, of_nat (nat (sc - 128)), 0), (0, 0, 0)]
      else [])"

lemma key_events_none: "256 \<le> sc \<or> sc \<le> 0 \<Longrightarrow> key_events sc = []"
proof -
  have "k \<in> set common_keys \<Longrightarrow> 0 < k \<and> k < 112" for k by (auto simp: common_keys_def)
  then show "256 \<le> sc \<or> sc \<le> 0 \<Longrightarrow> key_events sc = []" by (fastforce simp: key_events_def)
qed

lemma p9k_table_keys: "p9k_table = map (\<lambda>k. (int k, k)) common_keys"
  by (simp add: p9k_table_def common_keys_def)

lemma p9k_common: "p9k sc = (if sc \<in> int ` set common_keys then Some (nat sc) else None)"
proof -
  have "map_of (map (\<lambda>k. (int k, k)) ks) sc = (if sc \<in> int ` set ks then Some (nat sc) else None)" for ks
    by (induction ks) auto
  then show ?thesis by (simp add: p9k_def p9k_table_keys)
qed

lemma common_keys_range: "k \<in> set common_keys \<Longrightarrow> 0 < k \<and> k < 112"
  by (auto simp: common_keys_def)

lemma kbd_key_events: "kbd_key sc k = k\<lparr>u_evs := u_evs k @ key_events sc\<rparr>"
proof -
  have r: "sc \<in> int ` set common_keys \<Longrightarrow> 0 < sc \<and> sc < 112" for sc
    using common_keys_range by auto
  show ?thesis
    using r [of sc] r [of "sc - 128"]
    by (auto simp: kbd_key_def p9k_common key_events_def kbd_ev_def kbd_sync_def Let_def)
qed


text \<open>The next \<open>m\<close> reads each return all four bytes.\<close>

fun whole_reads :: "nat \<Rightarrow> 'b conn \<Rightarrow> bool" where
  "whole_reads 0 c = True"
| "whole_reads (Suc m) c =
     (case conn_read 4 c of
        ((bs, None), c') \<Rightarrow> length bs = 4 \<and> whole_reads m c'
      | ((bs, Some e), c') \<Rightarrow> False)"

lemma scancode_put: "scancode (put_le32 v) = int (unat v)"
  by (simp add: scancode_def put_le32_def put_be32_def le32_def be32_put)

lemma handle_kbd_whole:
  assumes "pending c = concat (map put_le32 scs)" and "whole_reads (length scs) c" and "length h = 4"
  shows "snd (handle_kbd h c k)
    = k\<lparr>u_evs := u_evs k @ concat (map (\<lambda>v. key_events (int (unat v))) scs)\<rparr>"
  using assms
proof (induction scs arbitrary: h c k)
  case Nil
  obtain bs e c' where r: "conn_read 4 c = ((bs, e), c')" by (metis prod.exhaust)
  with Nil have "e \<noteq> None" using conn_read_pending(5) [OF r] by simp
  with r show ?case by (auto simp: handle_kbd.simps [of h])
next
  case (Cons v scs)
  then obtain bs c' where r: "conn_read 4 c = ((bs, None), c')" and l: "length bs = 4"
    and w: "whole_reads (length scs) c'"
    by (auto split: prod.splits option.splits)
  have "bs = put_le32 v" "pending c' = concat (map put_le32 scs)"
    using conn_read_pending(1) [OF r] Cons.prems(1) l by (auto simp: append_eq_append_conv)
  then show ?case
    using Cons.IH [OF _ w, of bs "kbd_key (int (unat v)) k"] Cons.prems(3) l
    by (simp add: handle_kbd.simps [of h] r overwrite_full scancode_put kbd_key_events)
qed

text \<open>Claim C25. When the network delivers every scan code in one piece, the keyboard handler
  writes for each of them, in order, its press or release event and a synchronisation event,
  nothing for a code it does not know, and no other event.\<close>

theorem handle_kbd_events:
  assumes "pending c = concat (map put_le32 scs)" and "whole_reads (length scs) c"
  shows "u_evs (snd (handle_kbd [0, 0, 0, 0] c k))
    = u_evs k @ concat (map (\<lambda>v. key_events (int (unat v))) scs)"
  using handle_kbd_whole [OF assms] by simp

definition demo_kbd :: uinput where
  "demo_kbd = \<lparr>u_fd = 5, u_evs = []\<rparr>"

definition demo_keys :: "bytes list \<Rightarrow> u8 conn" where
  "demo_keys segs = \<lparr>inp = segs, rerr = EOF, outp = [], wleft = None\<rparr>"

lemma handle_kbd_demo:
  "snd (handle_kbd h (demo_keys []) k) = k"
  "handle_kbd h (demo_keys ([] # ss)) k = handle_kbd h (demo_keys ss) k"
  "handle_kbd h (demo_keys ((b # bs) # ss)) k =
     (let h' = overwrite h 0 (take 4 (b # bs)) in
      handle_kbd h' (demo_keys (drop 4 (b # bs) # ss)) (kbd_key (scancode h') k))"
  by (simp_all add: handle_kbd.simps [of h] demo_keys_def conn_read_def Let_def
      del: dropWhile_eq_Nil_conv split: list.split)

theorem handle_kbd_events_witness:
  "u_evs (snd (handle_kbd [0, 0, 0, 0] (demo_keys [[30, 0, 0, 0, 158, 0, 0, 0]]) demo_kbd))
    = [(1, 30, 1), (0, 0, 0), (1, 30, 0), (0, 0, 0)]"
proof -
  have "pending (demo_keys [[30, 0, 0, 0, 158, 0, 0, 0]]) = concat (map put_le32 [30, 158])"
    by (simp add: demo_keys_def pending_def put_le32_def put_be32_def)
  moreover have "whole_reads (length [30 :: u32, 158]) (demo_keys [[30, 0, 0, 0, 158, 0, 0, 0]])"
    by (simp add: demo_keys_def conn_read_def)
  ultimately show ?thesis
    using handle_kbd_events [of _ "[30, 158]" demo_kbd]
    by (simp add: demo_kbd_def key_events_def common_keys_def)
qed

text \<open>Claim C38. A press and the release of the same key are eight bytes. When the network delivers
  them in two segments cut after \<open>n\<close> bytes, the press is always processed, and the release exactly
  when the cut is not inside the press: a cut inside the press shifts every later read of four
  bytes, so the release is lost and the key stays down, although a cut between the two or inside the
  release does no harm.\<close>

theorem handle_kbd_split_release:
  assumes "unat s \<in> set common_keys" and "0 < n" and "n < 8"
    and "bs = [s, 0, 0, 0, s + 128, 0, 0, 0]"
  shows "u_evs (snd (handle_kbd [0, 0, 0, 0] (demo_keys [take n bs, drop n bs]) k))
      = u_evs k @ [(1, ucast s, 1), (0, 0, 0)] @ (if 4 \<le> n then [(1, ucast s, 0), (0, 0, 0)] else [])"
proof -
  have s: "0 < unat s" "unat s < 112" using assms(1) common_keys_range by auto
  have up: "unat (ucast a :: u32) = unat a" for a :: u8
    using unat_u8_less [of a] by (simp add: unsigned_ucast_eq take_bit_nat_eq_self)
  have rel: "unat (s + 128) = unat s + 128"
    using s by (simp add: unat_word_ariths)
  have lo: "scancode [a, 0, 0, 0] = int (unat a)" for a
    by (simp add: scancode_def le32_def be32_def up)
  have hi: "scancode [0, a, 0, 0] = int (unat a * 256)" "scancode [0, 0, a, 0] = int (unat a * 65536)"
    "scancode [0, 0, 0, a] = int (unat a * 16777216)" for a
    using unat_u8_less [of a]
    by (simp_all add: scancode_def le32_def be32_def push_bit_eq_mult unat_word_ariths up)
  have m: "uint s \<in> int ` set common_keys"
    by (rule image_eqI [of _ _ "unat s"]) (simp_all add: assms(1))
  have keys: "key_events (uint s) = [(1, ucast s, 1), (0, 0, 0)]"
    "key_events (uint s + 128) = [(1, ucast s, 0), (0, 0, 0)]"
    using assms(1) s m by (auto simp: key_events_def dest: common_keys_range)
  have none: "key_events 0 = []" "(uint s + 128) * 256 = sc \<Longrightarrow> key_events sc = []"
    "(uint s + 128) * 65536 = sc \<Longrightarrow> key_events sc = []"
    "(uint s + 128) * 16777216 = sc \<Longrightarrow> key_events sc = []" for sc
    using s by (auto simp: key_events_none)
  note run = handle_kbd_demo kbd_key_events overwrite_def lo hi rel keys none
  have "n = 1 \<or> n = 2 \<or> n = 3 \<or> n = 4 \<or> n = 5 \<or> n = 6 \<or> n = 7" using assms(2,3) by linarith
  then show ?thesis
    unfolding assms(4) by (elim disjE) (simp_all add: run)
qed

theorem handle_kbd_split_release_witness:
  "u_evs (snd (handle_kbd [0, 0, 0, 0] (demo_keys [[30, 0], [0, 0, 158, 0, 0, 0]]) demo_kbd))
    = [(1, 30, 1), (0, 0, 0)]
   \<and> u_evs (snd (handle_kbd [0, 0, 0, 0] (demo_keys [[30, 0, 0, 0, 158], [0, 0, 0]]) demo_kbd))
    = [(1, 30, 1), (0, 0, 0), (1, 30, 0), (0, 0, 0)]"
  using handle_kbd_split_release [of 30 2 "[30, 0, 0, 0, 158, 0, 0, 0]" demo_kbd]
    handle_kbd_split_release [of 30 5 "[30, 0, 0, 0, 158, 0, 0, 0]" demo_kbd]
  by (simp add: demo_kbd_def common_keys_def)

text \<open>Every key event the keyboard writes, for any scan codes, is for a key that
  \<open>openKbd\<close> enabled on the same descriptor.\<close>

lemma kbd_events_enabled:
  assumes "fst (open_kbd env) = Inr k" and "(1, c, v) \<in> set (u_evs (fold kbd_key scs k))"
  shows "ub (nat (u_fd k)) 64 0x40045565 [unat c] \<in> set (snd (open_kbd env))"
proof -
  obtain fd where o: "uenv_open env = Inr fd" and k: "u_fd k = int fd" "u_evs k = []"
    using assms(1) finish_open_fd by (force simp: open_kbd_def split: sum.splits)
  have "u_evs (fold kbd_key scs k) = u_evs k @ concat (map key_events scs)" for k
    by (induction scs arbitrary: k) (auto simp: kbd_key_events)
  then obtain sc where "(1, c, v) \<in> set (key_events sc)" using assms(2) k by auto
  then obtain n where n: "n \<in> set common_keys" "c = of_nat n"
    by (auto simp: key_events_def split: if_splits)
  then have "unat c = n" using common_keys_range [of n] by simp
  then show ?thesis
    using n(1) o k by (auto simp: open_kbd_def finish_open_def Let_def split: option.split)
qed

lemma kbd_events_enabled_example:
  "ub 5 64 0x40045565 [30] \<in> set (snd (open_kbd \<lparr>uenv_open = Inr 5, uenv_setup = None, uenv_create = None\<rparr>))"
proof -
  let ?env = "\<lparr>uenv_open = Inr 5, uenv_setup = None, uenv_create = None\<rparr>"
  have "fst (open_kbd ?env) = Inr demo_kbd"
    by (simp add: open_kbd_def finish_open_def demo_kbd_def)
  moreover have "(1, 30, 1) \<in> set (u_evs (fold kbd_key [30] demo_kbd))"
    by (simp add: kbd_key_events key_events_def common_keys_def)
  ultimately show ?thesis
    using kbd_events_enabled [of ?env demo_kbd 30 1 "[30]"] by (simp add: demo_kbd_def)
qed

end
