(* ===== verification/Draw_Server.thy ===== *)
theory Draw_Server
  imports Wsysmsg Uinput Go_Strings
begin

text \<open>
  The connection loop of the draw servers. \<open>handleDraw\<close> of \<open>drawsrv.go\<close> and the connection
  function of \<open>cmd/drawsrv/main.go\<close> are the same loop over their own codec, buffer size and
  dispatch; \<open>draw_loop\<close> is that loop, with those as arguments, and each server instantiates it.
  The locale \<open>draw_server\<close> states what a dispatch must keep so that the server answers every
  request; both servers interpret it.
\<close>

section \<open>The loop\<close>

text \<open>\<open>for t := 0; t < n; { r, err := conn.Read(buf[t:n]); ...; t += r }\<close>.\<close>

function read_body :: "nat \<Rightarrow> bytes \<Rightarrow> u8 conn \<Rightarrow> bytes option \<times> u8 conn" where
  "read_body need got c =
     (if need = 0 then (Some got, c)
      else (case conn_read need c of
              ((bs, None), c') \<Rightarrow> read_body (need - length bs) (got @ bs) c'
            | ((bs, Some e), c') \<Rightarrow> (None, c')))"
  by pat_completeness auto
termination
  by (relation "measure (\<lambda>(need, got, c). need)") (auto dest!: sym [THEN conn_read_pending(3)])

declare read_body.simps [simp del]

lemma read_body_full:
  "read_body n got c =
     (case read_full_loop n got c of
        ((d, None), c') \<Rightarrow> (Some d, c') | ((d, Some e), c') \<Rightarrow> (None, c'))"
proof (induction n got c rule: read_body.induct)
  case (1 n got c)
  show ?case
    using "1.IH" by (auto simp: read_body.simps [of n] read_full_loop.simps [of n]
        split: prod.splits option.splits)
qed

lemma read_body_spec:
  assumes "n \<le> length (pending c)"
  shows "read_body n [] c = (Some (take n (pending c)), snd (read_full n c))"
  using read_full_spec [of n c] assms
  by (auto simp: read_body_full read_full_def [symmetric] full_result_def
      split: prod.splits option.splits)

lemma read_body_pending: "read_body n got c = (d, c') \<Longrightarrow> length (pending c') \<le> length (pending c)"
  using read_full_loop_spec [of n got c]
  by (auto simp: read_body_full split: prod.splits option.splits)

text \<open>The header is one \<open>Read\<close> of four bytes into the reused \<open>h\<close>; the length in it must be at
  least 2 and fit the buffer. The error of \<open>Write\<close> is ignored.\<close>

definition hdr_len :: "bytes \<Rightarrow> nat" where
  "hdr_len h = unat (be32 (h ! 0) (h ! 1) (h ! 2) (h ! 3))"

type_synonym reply_fn = "msg \<Rightarrow> uinput option \<Rightarrow> msg \<times> uinput option"

function draw_loop ::
    "nat \<Rightarrow> (bytes \<Rightarrow> msg \<Rightarrow> (int \<times> msg) go) \<Rightarrow> (msg \<Rightarrow> bytes go) \<Rightarrow> reply_fn
     \<Rightarrow> bytes \<Rightarrow> u8 conn \<Rightarrow> uinput option \<Rightarrow> (u8 conn \<times> uinput option) go" where
  "draw_loop limit dec send reply h c ui =
     (case conn_read 4 c of
        ((bs, Some e), c1) \<Rightarrow> Ret (c1, ui)
      | ((bs, None), c1) \<Rightarrow>
          let h' = overwrite h 0 bs; n = hdr_len h' in
          if n < 2 \<or> n > limit then Ret (c1, ui)
          else (case read_body n [] c1 of
                  (None, c2) \<Rightarrow> Ret (c2, ui)
                | (Some body, c2) \<Rightarrow>
                    go_bind (dec body msg0) (\<lambda>(_, m).
                    (let (r, ui') = reply m ui in
                     go_bind (send r) (\<lambda>rb.
                     draw_loop limit dec send reply h' (snd (conn_write rb c2)) ui')))))"
  by pat_completeness auto
termination
proof (relation "measure (\<lambda>(limit, dec, send, reply, h, c, ui). length (pending c))", simp, goal_cases)
  case (1 limit dec send reply h c ui)
  then show ?case
    by (auto simp: frame_simps dest!: sym [THEN conn_read_shrinks] sym [THEN read_body_pending])
qed

declare draw_loop.simps [simp del]


section \<open>A stream of requests\<close>

text \<open>What reading does is independent of what has been written.\<close>

lemma conn_read_outp:
  "conn_read n (c\<lparr>outp := out\<rparr>) = (fst (conn_read n c), snd (conn_read n c)\<lparr>outp := out\<rparr>)"
  by (auto simp: conn_read_def simp del: dropWhile_eq_Nil_conv split: list.split)

lemma read_full_loop_outp:
  "read_full_loop n got (c\<lparr>outp := out\<rparr>)
   = (fst (read_full_loop n got c), snd (read_full_loop n got c)\<lparr>outp := out\<rparr>)"
proof (induction n got c rule: read_full_loop.induct)
  case (1 n got c)
  show ?case
    using "1.IH" by (auto simp: read_full_loop.simps [of n] conn_read_outp
        split: prod.splits option.splits)
qed

text \<open>The frames \<open>fs\<close> are delivered with the four header bytes of each in one read; their
  bodies may be cut anywhere.\<close>

fun headers_whole :: "bytes list \<Rightarrow> u8 conn \<Rightarrow> bool" where
  "headers_whole [] c = True"
| "headers_whole (f # fs) c =
     (case conn_read 4 c of
        ((bs, None), c1) \<Rightarrow> length bs = 4 \<and> headers_whole fs (snd (read_full (length f) c1))
      | ((bs, Some e), c1) \<Rightarrow> False)"

lemma headers_whole_outp [simp]: "headers_whole fs (c\<lparr>outp := out\<rparr>) = headers_whole fs c"
proof (induction fs arbitrary: c)
  case Nil
  show ?case by simp
next
  case (Cons f fs)
  then show ?case
    by (auto simp: conn_read_outp read_full_def read_full_loop_outp split: prod.splits option.splits)
qed

definition requests :: "nat \<Rightarrow> bytes list \<Rightarrow> u8 conn \<Rightarrow> bool" where
  "requests limit fs c \<longleftrightarrow>
     pending c = concat (map frame fs) \<and> headers_whole fs c \<and> wleft c = None
     \<and> (\<forall>f \<in> set fs. 2 \<le> length f \<and> length f \<le> limit)"

text \<open>The answers, one per request, and the state of the pointer device after them.\<close>

definition exchange ::
    "(bytes \<Rightarrow> msg \<Rightarrow> (int \<times> msg) go) \<Rightarrow> reply_fn \<Rightarrow> bytes \<Rightarrow> uinput option
     \<Rightarrow> msg \<times> uinput option" where
  "exchange dec reply f ui =
     (case dec f msg0 of Ret (_, m) \<Rightarrow> reply m ui | Panic \<Rightarrow> (msg0, ui))"

fun answers ::
    "(bytes \<Rightarrow> msg \<Rightarrow> (int \<times> msg) go) \<Rightarrow> reply_fn \<Rightarrow> bytes list \<Rightarrow> uinput option
     \<Rightarrow> msg list \<times> uinput option" where
  "answers dec reply [] ui = ([], ui)"
| "answers dec reply (f # fs) ui =
     (let (r, ui1) = exchange dec reply f ui; (rs, ui2) = answers dec reply fs ui1
      in (r # rs, ui2))"

lemma length_answers [simp]: "length (fst (answers dec reply fs ui)) = length fs"
  by (induction fs arbitrary: ui) (auto simp: split_beta)

section \<open>The contract of a server\<close>

locale draw_server = wsys_codec +
  fixes limit :: nat
    and reply :: reply_fn
  assumes reply_data: "data_ok (fst (reply m ui))"
    and reply_tag: "mTag (fst (reply m ui)) = mTag m"
    and reply_kind: "mT (fst (reply m ui)) = mT m + 1 \<or> mT (fst (reply m ui)) = Rerror"
    and limit_32: "limit < 2 ^ 32"
begin

abbreviation loop :: "bytes \<Rightarrow> u8 conn \<Rightarrow> uinput option \<Rightarrow> (u8 conn \<times> uinput option) go" where
  "loop \<equiv> draw_loop limit dec (send_frame sz enc) reply"

lemma loop_ret: "\<exists>c' ui'. loop h c ui = Ret (c', ui')"
proof (induction "length (pending c)" arbitrary: h c ui rule: less_induct)
  case (less c h ui)
  obtain bs e c1 where r: "conn_read 4 c = ((bs, e), c1)" by (metis prod.exhaust)
  show ?case
  proof (cases e)
    case (Some x)
    with r show ?thesis by (simp add: draw_loop.simps)
  next
    case None
    define h' where "h' = overwrite h 0 bs"
    define n where "n = hdr_len h'"
    obtain d c2 where b: "read_body n [] c1 = (d, c2)" by (metis prod.exhaust)
    show ?thesis
    proof (cases "n < 2 \<or> n > limit \<or> d = None")
      case True
      with r None b show ?thesis
        by (auto simp: draw_loop.simps [of limit dec _ reply h] Let_def h'_def [symmetric]
            n_def [symmetric])
    next
      case False
      then obtain body where d: "d = Some body" by blast
      obtain k m where m: "dec body msg0 = Ret (k, m)" by (rule dec_some)
      obtain rm ui' where rm: "reply m ui = (rm, ui')" by (metis prod.exhaust)
      have s: "send_frame sz enc rm = Ret (frame (wire rm))"
        using send_frame_wire reply_data [of m ui] rm by simp
      have "length (pending (snd (conn_write (frame (wire rm)) c2))) < length (pending c)"
        using conn_read_shrinks [of 4 c bs c1] r None read_body_pending [OF b]
        by (simp add: frame_simps)
      from less [OF this, of h' ui'] show ?thesis
        using r None b False d m rm s
        by (auto simp: draw_loop.simps [of limit dec _ reply h] Let_def h'_def [symmetric]
            n_def [symmetric])
    qed
  qed
qed

lemma loop_serves:
  assumes "requests limit fs c" and "length h = 4"
  shows "\<exists>c'. loop h c ui = Ret (c', snd (answers dec reply fs ui))
    \<and> outp c' = outp c @ map (\<lambda>r. frame (wire r)) (fst (answers dec reply fs ui))
    \<and> pending c' = []"
  using assms
proof (induction fs arbitrary: h c ui)
  case Nil
  obtain bs e c1 where r: "conn_read 4 c = ((bs, e), c1)" by (metis prod.exhaust)
  with Nil have "e \<noteq> None" using conn_read_pending(5) [OF r] by (simp add: requests_def)
  moreover have "pending c1 = []" "outp c1 = outp c"
    using conn_read_pending(1) [OF r] conn_read_frame(2) [of 4 c] Nil r by (auto simp: requests_def)
  ultimately show ?case using r by (auto simp: draw_loop.simps)
next
  case (Cons f fs)
  then obtain bs c1 where r: "conn_read 4 c = ((bs, None), c1)" and l: "length bs = 4"
    and w: "headers_whole fs (snd (read_full (length f) c1))"
    by (auto simp: requests_def split: prod.splits option.splits)
  have p: "bs = put_be32 (of_nat (length f))" "pending c1 = f @ concat (map frame fs)"
    using conn_read_pending(1) [OF r] Cons.prems(1) l
    by (auto simp: requests_def frame_def append_eq_append_conv)
  define c2 where "c2 = snd (read_full (length f) c1)"
  have b: "read_body (length f) [] c1 = (Some f, c2)"
    using read_body_spec [of "length f" c1] p(2) by (simp add: c2_def)
  have c2: "pending c2 = concat (map frame fs)" "wleft c2 = None" "outp c2 = outp c"
    using read_full_spec(2) [of "length f" c1] p(2) conn_read_frame [of 4 c] r Cons.prems(1)
    by (auto simp: c2_def frame_simps requests_def)
  have fl: "2 \<le> length f" "length f \<le> limit" using Cons.prems(1) by (auto simp: requests_def)
  then have n: "hdr_len bs = length f"
    using limit_32 by (simp add: hdr_len_def p(1) put_be32_def be32_put)
  obtain k m where m: "dec f msg0 = Ret (k, m)" by (rule dec_some)
  obtain rm ui' where rm: "reply m ui = (rm, ui')" by (metis prod.exhaust)
  have s: "send_frame sz enc rm = Ret (frame (wire rm))"
    using send_frame_wire reply_data [of m ui] rm by simp
  have wr: "conn_write (frame (wire rm)) c2 = (None, c2\<lparr>outp := outp c2 @ [frame (wire rm)]\<rparr>)"
    using c2(2) by (simp add: conn_write_def)
  define c3 where "c3 = c2\<lparr>outp := outp c2 @ [frame (wire rm)]\<rparr>"
  have "requests limit fs c3"
    using w c2 Cons.prems(1) by (auto simp: requests_def c3_def c2_def pending_def)
  from Cons.IH [OF this l, of ui'] have ih: "\<exists>c'. loop bs c3 ui' = Ret (c', snd (answers dec reply fs ui'))
      \<and> outp c' = outp c3 @ map (\<lambda>r. frame (wire r)) (fst (answers dec reply fs ui')) \<and> pending c' = []" .
  have "loop h c ui = loop bs c3 ui'"
    using fl by (simp add: draw_loop.simps [of limit dec _ reply h c] r overwrite_full l
        Cons.prems(2) n b m rm s wr c3_def)
  with ih show ?case
    by (auto simp: exchange_def m rm split_beta c3_def c2(3))
qed

text \<open>Each answer carries the tag of its request, and its type or the error type.\<close>

lemma exchange_head:
  assumes "2 \<le> length f"
  shows "mTag (fst (exchange dec reply f ui)) = f ! 1
    \<and> (mT (fst (exchange dec reply f ui)) = f ! 0 + 1 \<or> mT (fst (exchange dec reply f ui)) = Rerror)"
proof -
  obtain k m where m: "dec f msg0 = Ret (k, m)" by (rule dec_some)
  then show ?thesis
    using dec_head [OF m assms] reply_tag [of m ui] reply_kind [of m ui] by (simp add: exchange_def)
qed

lemma answers_heads:
  assumes "\<forall>f \<in> set fs. 2 \<le> length f"
  shows "list_all2 (\<lambda>f r. mTag r = f ! 1 \<and> (mT r = f ! 0 + 1 \<or> mT r = Rerror))
    fs (fst (answers dec reply fs ui))"
  using assms by (induction fs arbitrary: ui) (auto simp: split_beta exchange_head)

lemma exchange_buttons:
  assumes "2 \<le> length f"
  obtains m where "exchange dec reply f ui = reply m ui" and "mB m = 0" and "mT m = f ! 0"
    and "mTag m = f ! 1"
proof -
  obtain k m where m: "dec f msg0 = Ret (k, m)" by (rule dec_some)
  then show ?thesis
    using dec_head [OF m assms] that by (simp add: exchange_def msg0_def)
qed

text \<open>A header cut after its first or second byte, for a request below 64 KB, reads as length 0:
  the connection ends without an answer.\<close>

lemma loop_split_header:
  assumes "inp c = take k (frame f) # rest" and "k = 1 \<or> k = 2" and "length f < 65536"
    and "2 \<le> length f"
  shows "\<exists>c'. loop [0, 0, 0, 0] c ui = Ret (c', ui) \<and> outp c' = outp c"
proof -
  let ?v = "of_nat (length f) :: u32"
  have u: "unat ?v = length f" using assms(3) by simp
  have "drop_bit 24 ?v = 0" "drop_bit 16 ?v = 0"
    by (simp_all only: unat_eq_0 [symmetric] unat_drop_bit_eq u)
      (use assms(3) in \<open>simp_all add: drop_bit_eq_div\<close>)
  then have t: "take k (frame f) = replicate k 0"
    using assms(2) by (auto simp: frame_def put_be32_def numeral_2_eq_2)
  have r: "conn_read 4 c = ((replicate k 0, None), c\<lparr>inp := [] # rest\<rparr>)"
    using assms(1,2) unfolding t by (auto simp: conn_read_def)
  have "overwrite [0, 0, 0, 0 :: u8] 0 (replicate k 0) = [0, 0, 0, 0]"
    using assms(2) by (auto simp: overwrite_def numeral_2_eq_2)
  then show ?thesis using r by (auto simp: draw_loop.simps [of limit dec _ reply] hdr_len_def be32_def)
qed

end

end
