(* ===== verification/Drawsrv.thy ===== *)
theory Drawsrv
  imports Draw_Server Go_Path
begin

text \<open>
  The draw server \<open>drawsrv.go\<close>: the dispatch of \<open>handleDraw\<close>, the handler itself as an instance
  of \<open>draw_loop\<close>, and what \<open>main\<close> opens and listens on. The framebuffer is copied anew for each
  \<open>Trddraw\<close>; its contents are those of the mapping at that time, taken as constant here.
\<close>

section \<open>Dispatch\<close>

definition unhandled :: "u8 \<Rightarrow> bytes" where
  "unhandled t = map of_char (''unhandled '' @ itoa_nat (unat t))"

definition draw_reply :: "draw_fb option \<Rightarrow> reply_fn" where
  "draw_reply fb m ui =
     (let r = msg0 in
      if mT m = Tinit then (r\<lparr>mT := Rinit, mTag := mTag m\<rparr>, ui)
      else if mT m = Trdmouse then (r\<lparr>mT := Rrdmouse, mTag := mTag m\<rparr>, ui)
      else if mT m = Trdkbd then (r\<lparr>mT := Rrdkbd, mTag := mTag m\<rparr>, ui)
      else if mT m = Trddraw then
        let r = r\<lparr>mT := Rrddraw, mTag := mTag m\<rparr> in
        (case fb of
           None \<Rightarrow> (r, ui)
         | Some f \<Rightarrow> let p = draw_fb_copy f in (r\<lparr>mN := of_nat (length p), mD := p\<rparr>, ui))
      else if mT m = Tmoveto then
        (r\<lparr>mT := Rmoveto, mTag := mTag m\<rparr>, map_option (ui_move (mX m) (mY m)) ui)
      else if mT m = Tbouncemouse then
        (r\<lparr>mT := Rbouncemouse, mTag := mTag m\<rparr>, map_option (ui_btns (mB m)) ui)
      else (r\<lparr>mT := Rerror, mTag := mTag m, mLbl := unhandled (mT m)\<rparr>, ui))"

text \<open>The buffer of \<open>handleDraw\<close> is 256 MB.\<close>

definition draw_limit :: nat where
  "draw_limit = 268435456"

definition handle_draw ::
    "draw_fb option \<Rightarrow> u8 conn \<Rightarrow> uinput option \<Rightarrow> (u8 conn \<times> uinput option) go" where
  "handle_draw fb c ui =
     draw_loop draw_limit wdec (send_frame size_msg wenc) (draw_reply fb) [0, 0, 0, 0] c ui"

lemma unat_of_nat_le: "unat (of_nat n :: u32) \<le> n"
  by (simp add: unat_of_nat take_bit_nat_less_eq_self)

lemma length_draw_fb_copy [simp]: "length (draw_fb_copy f) = length (dfb_data f)"
  by (simp add: draw_fb_copy_def)

interpretation drawsrv: draw_server size_msg wenc wdec draw_limit "draw_reply fb" for fb
proof unfold_locales
  fix m :: msg and ui :: "uinput option"
  show "data_ok (fst (draw_reply fb m ui))"
    by (auto simp: draw_reply_def data_ok_def Let_def wsys_codes msg0_def unat_of_nat_le
        split: option.split)
  show "mTag (fst (draw_reply fb m ui)) = mTag m"
    by (auto simp: draw_reply_def Let_def split: option.split)
  show "mT (fst (draw_reply fb m ui)) = mT m + 1 \<or> mT (fst (draw_reply fb m ui)) = Rerror"
    by (auto simp: draw_reply_def Let_def wsys_codes split: option.split)
qed (simp add: draw_limit_def)

section \<open>What main opens and where it listens\<close>

text \<open>The DRM node, else \<open>/dev/fb0\<close>, else none.\<close>

definition main_fb :: "string \<Rightarrow> fb_env \<Rightarrow> fb_env \<Rightarrow> draw_fb option \<times> syscall list" where
  "main_fb drm env env0 =
     (case draw_open_fb drm env of
        (Inr f, t) \<Rightarrow> (Some f, t)
      | (Inl e, t) \<Rightarrow>
          (case draw_open_fb0 env0 of
             (Inr f, t0) \<Rightarrow> (Some f, t @ t0)
           | (Inl e0, t0) \<Rightarrow> (None, t @ t0)))"

datatype listener = ListenTCP string | ListenUnix string

definition main_listener :: "string \<Rightarrow> env \<Rightarrow> listener" where
  "main_listener tcp env =
     (if tcp \<noteq> [] then ListenTCP tcp
      else
        let sp = env ''DRAWSRV'' in
        if sp = [] then
          let ns = (if env ''NAMESPACE'' = [] then ''/tmp'' else env ''NAMESPACE'')
          in ListenUnix (path_join [ns, ''drawsrv''])
        else ListenUnix sp)"

text \<open>The keyboard port is served only when a flag names it and the device could be opened.\<close>

definition main_kbd_listener :: "string \<Rightarrow> (string + uinput) \<Rightarrow> listener option" where
  "main_kbd_listener kbd dev = (if kbd \<noteq> [] \<and> \<not> isl dev then Some (ListenTCP kbd) else None)"

section \<open>Properties\<close>

text \<open>Claim C3. Every request of a stream whose headers arrive whole is answered, in order, by one
  frame that carries its tag and either its type plus one or the error type, however the bodies
  are cut; the handler then returns.\<close>

theorem handle_draw_answers:
  assumes "requests draw_limit fs c"
  shows "\<exists>c' ui' rs. handle_draw fb c ui = Ret (c', ui')
    \<and> outp c' = outp c @ map (\<lambda>r. frame (wire r)) rs
    \<and> list_all2 (\<lambda>f r. mTag r = f ! 1 \<and> (mT r = f ! 0 + 1 \<or> mT r = Rerror)) fs rs"
proof -
  have "\<forall>f \<in> set fs. 2 \<le> length f" using assms by (simp add: requests_def)
  with drawsrv.loop_serves [OF assms, of "[0, 0, 0, 0]" fb ui] drawsrv.answers_heads
  show ?thesis unfolding handle_draw_def by fastforce
qed

text \<open>Claim C26. \<open>handleDraw\<close> ends without a panic on every connection whose peer stops sending,
  whatever the bytes.\<close>

theorem handle_draw_total: "\<exists>c' ui'. handle_draw fb c ui = Ret (c', ui')"
  unfolding handle_draw_def by (rule drawsrv.loop_ret)

definition demo_draw :: "bytes list \<Rightarrow> u8 conn" where
  "demo_draw segs = \<lparr>inp = segs, rerr = EOF, outp = [], wleft = None\<rparr>"

lemma demo_requests:
  "requests draw_limit [[2, 7], [4, 8, 0, 0, 0, 3, 0, 0, 0, 4]]
     (demo_draw [[0, 0, 0, 2, 2, 7, 0, 0, 0, 10, 4], [8, 0, 0, 0, 3], [0, 0, 0, 4]])"
proof -
  have "pending (demo_draw [[0, 0, 0, 2, 2, 7, 0, 0, 0, 10, 4], [8, 0, 0, 0, 3], [0, 0, 0, 4]])
      = concat (map frame [[2, 7], [4, 8, 0, 0, 0, 3, 0, 0, 0, 4]])"
    by (simp add: demo_draw_def pending_def frame_def put_be32_def)
  moreover have "headers_whole [[2, 7], [4, 8, 0, 0, 0, 3, 0, 0, 0, 4]]
      (demo_draw [[0, 0, 0, 2, 2, 7, 0, 0, 0, 10, 4], [8, 0, 0, 0, 3], [0, 0, 0, 4]])"
    by (simp add: demo_draw_def conn_read_def read_full_def read_full_loop.simps)
  ultimately show ?thesis
    by (simp add: requests_def demo_draw_def draw_limit_def)
qed

theorem handle_draw_answers_witness:
  "\<exists>c' ui' rs. handle_draw None
      (demo_draw [[0, 0, 0, 2, 2, 7, 0, 0, 0, 10, 4], [8, 0, 0, 0, 3], [0, 0, 0, 4]]) None = Ret (c', ui')
    \<and> outp c' = map (\<lambda>r. frame (wire r)) rs \<and> map mTag rs = [7, 8]"
  using handle_draw_answers [OF demo_requests, of None None]
  by (fastforce simp: demo_draw_def list_all2_Cons1)

text \<open>What one request frame is answered with, kind by kind.\<close>

lemma draw_exchange:
  assumes "2 \<le> length f"
  obtains m where "exchange wdec (draw_reply fb) f ui = draw_reply fb m ui" and "mB m = 0"
    and "mT m = f ! 0" and "mTag m = f ! 1"
  using drawsrv.exchange_buttons [OF assms] by blast

text \<open>What the protocol of the answers says, byte by byte, by the type in the first byte of the
  request: an init, move or button request gets the bare reply header, a mouse read a zero
  position and zero buttons, a keyboard read a zero rune, a draw request the length and bytes of
  the framebuffer (or length zero without one), anything else, \<open>Ttop\<close> included, an error text.\<close>

definition answer_bytes :: "draw_fb option \<Rightarrow> bytes \<Rightarrow> bytes" where
  "answer_bytes fb f =
    (let tag = f ! 1 in
     if f ! 0 = 14 then [15, tag]
     else if f ! 0 = 2 then [3, tag] @ replicate 17 0
     else if f ! 0 = 10 then [11, tag, 0, 0]
     else if f ! 0 = 20 then
       [21, tag] @ (case fb of None \<Rightarrow> put_be32 0
          | Some d \<Rightarrow> put_be32 (of_nat (length (dfb_data d))) @ dfb_data d)
     else if f ! 0 = 4 then [5, tag]
     else if f ! 0 = 8 then [9, tag]
     else [1, tag] @ put_be16 (of_nat (length (unhandled (f ! 0)))) @ unhandled (f ! 0))"

lemma exchange_answer_bytes:
  assumes "2 \<le> length f" and "\<forall>d. fb = Some d \<longrightarrow> length (dfb_data d) < 2 ^ 32"
  shows "wire (fst (exchange wdec (draw_reply fb) f ui)) = answer_bytes fb f"
proof -
  obtain m where e: "exchange wdec (draw_reply fb) f ui = draw_reply fb m ui"
    and t: "mT m = f ! 0" "mTag m = f ! 1"
    using draw_exchange [OF assms(1)] by blast
  have cp: "draw_fb_copy d = dfb_data d" for d
    by (rule drawsrv_fb.cp_pixels)
  have r17: "replicate 17 (0 :: u8) = [0,0,0,0, 0,0,0,0, 0,0,0,0, 0,0,0,0, 0]"
    by (simp add: eval_nat_numeral)
  show ?thesis
    using assms(2) unfolding e
    by (auto simp: draw_reply_def answer_bytes_def Let_def t wire_def payload_def wsys_codes msg0_def
        put_be32_def put_be16_def r17 cp split: option.split)
qed

lemma answers_answer_bytes:
  assumes "\<forall>f \<in> set fs. 2 \<le> length f" and "\<forall>d. fb = Some d \<longrightarrow> length (dfb_data d) < 2 ^ 32"
  shows "map wire (fst (answers wdec (draw_reply fb) fs ui)) = map (answer_bytes fb) fs"
  using assms(1) by (induction fs arbitrary: ui) (simp_all add: split_beta exchange_answer_bytes [OF _ assms(2)])

text \<open>Claim C27. The bytes \<open>handleDraw\<close> writes for a stream of requests whose headers arrive whole:
  for each request, in order, four bytes of length and exactly the answer the protocol prescribes
  for it. A mouse or keyboard read is answered at once, with zeros.\<close>

theorem draw_answer_bytes:
  assumes "requests draw_limit fs c" and "\<forall>d. fb = Some d \<longrightarrow> length (dfb_data d) < 2 ^ 32"
  shows "\<exists>c' ui'. handle_draw fb c ui = Ret (c', ui')
    \<and> outp c' = outp c @ map (\<lambda>f. put_be32 (of_nat (length (answer_bytes fb f))) @ answer_bytes fb f) fs"
proof -
  have "\<forall>f \<in> set fs. 2 \<le> length f" using assms(1) by (simp add: requests_def)
  note a = answers_answer_bytes [OF this assms(2)]
  have "map (\<lambda>r. frame (wire r)) (fst (answers wdec (draw_reply fb) fs ui))
      = map (\<lambda>f. put_be32 (of_nat (length (answer_bytes fb f))) @ answer_bytes fb f) fs"
    using arg_cong [OF a, of "map frame"] by (simp add: frame_def comp_def)
  then show ?thesis
    using drawsrv.loop_serves [OF assms(1), of "[0, 0, 0, 0]" fb ui] unfolding handle_draw_def by force
qed

theorem draw_answer_bytes_witness:
  "\<exists>c' ui'. handle_draw (Some \<lparr>dfb_data = [1, 2, 3], dfb_w = 1, dfb_h = 1, dfb_stride = 3\<rparr>)
      (demo_draw [[0, 0, 0, 2, 20, 9]]) None = Ret (c', ui')
    \<and> outp c' = [[0, 0, 0, 9, 21, 9, 0, 0, 0, 3, 1, 2, 3]]"
proof -
  have "requests draw_limit [[20, 9]] (demo_draw [[0, 0, 0, 2, 20, 9]])"
    by (simp add: requests_def demo_draw_def draw_limit_def pending_def frame_def put_be32_def
        conn_read_def)
  from draw_answer_bytes [OF this, of "Some \<lparr>dfb_data = [1, 2, 3], dfb_w = 1, dfb_h = 1, dfb_stride = 3\<rparr>" None]
  show ?thesis by (simp add: answer_bytes_def demo_draw_def put_be32_def Let_def)
qed

text \<open>A move request of ten bytes moves the virtual pointer to the coordinates in it; one
  that is cut short moves it to the origin and is answered like any other.\<close>

lemma draw_moveto_moves:
  assumes "ui = Some u"
  shows "snd (exchange wdec (draw_reply fb) ([4, tag] @ put_be32 x @ put_be32 y) ui)
      = Some (u\<lparr>u_evs := u_evs u @ [(3, 0, x), (3, 1, y), (0, 0, 0)]\<rparr>)
    \<and> (length post < 8 \<longrightarrow>
        snd (exchange wdec (draw_reply fb) ([4, tag] @ post) ui)
        = Some (u\<lparr>u_evs := u_evs u @ [(3, 0, 0), (3, 1, 0), (0, 0, 0)]\<rparr>))"
proof -
  have w: "wdec (4 # tag # put_be32 x @ put_be32 y) msg0
      = Ret (10, msg0\<lparr>mT := 4, mTag := tag, mX := x, mY := y\<rparr>)"
    using wdec_moveto [of tag x y "[]" msg0] by (simp add: Tmoveto_def)
  have s: "length post < 8 \<Longrightarrow> wdec (4 # tag # post) msg0 = Ret (2, msg0\<lparr>mT := 4, mTag := tag\<rparr>)"
    using wdec_moveto_short [of post tag msg0] by (simp add: Tmoveto_def)
  show ?thesis
    using assms by (simp add: exchange_def w s draw_reply_def Let_def wsys_codes ui_move_def ui_ev_def)
      (simp add: msg0_def)
qed

lemma draw_moveto_moves_example:
  "snd (exchange wdec (draw_reply None) [4, 1, 0, 0, 0, 5, 0, 0, 0, 6] (Some demo_kbd))
    = Some (demo_kbd\<lparr>u_evs := [(3, 0, 5), (3, 1, 6), (0, 0, 0)]\<rparr>)"
  using draw_moveto_moves [of "Some demo_kbd" demo_kbd None 1 5 6 "[]"]
  by (simp add: put_be32_def demo_kbd_def)

text \<open>The buttons of a bounce-mouse request are never decoded: whatever its payload, the
  server releases all three buttons and answers success.\<close>

lemma draw_bounce_releases:
  "snd (exchange wdec (draw_reply fb) ([8, tag] @ payload_bytes) (Some u))
     = Some (u\<lparr>u_evs := u_evs u @ [(1, 0x110, 0), (1, 0x111, 0), (1, 0x112, 0), (0, 0, 0)]\<rparr>)
   \<and> wire (fst (exchange wdec (draw_reply fb) ([8, tag] @ payload_bytes) (Some u))) = [9, tag]"
proof -
  obtain m where e: "exchange wdec (draw_reply fb) ([8, tag] @ payload_bytes) (Some u)
      = draw_reply fb m (Some u)" and m: "mB m = 0" "mT m = 8" "mTag m = tag"
    using draw_exchange [of "[8, tag] @ payload_bytes" fb "Some u"] by auto
  have "signed_drop_bit n (0 :: i32) = 0" for n by simp
  with m show ?thesis unfolding e
    by (simp add: draw_reply_def Let_def wsys_codes ui_btns_def ui_ev_def wire_def payload_def)
qed

text \<open>The header is read with one plain \<open>Read\<close>: when the network cuts the first header of
  a request below 64 KB after one or two bytes, the connection is closed without an answer,
  while the same bytes in one segment are answered.\<close>

lemma handle_draw_split_header:
  assumes "inp c = take k (frame f) # rest" and "k = 1 \<or> k = 2"
    and "2 \<le> length f" and "length f < 65536"
  shows "\<exists>c'. handle_draw fb c ui = Ret (c', ui) \<and> outp c' = outp c"
  unfolding handle_draw_def using drawsrv.loop_split_header [OF assms(1,2,4,3)] .

lemma handle_draw_split_header_example:
  "(\<exists>c'. handle_draw None (demo_draw [[0, 0], [0, 2, 2, 7]]) None = Ret (c', None) \<and> outp c' = [])"
  using handle_draw_split_header [of "demo_draw [[0, 0], [0, 2, 2, 7]]" 2 "[2, 7]" "[[0, 2, 2, 7]]" None None]
  by (simp add: demo_draw_def frame_def put_be32_def numeral_2_eq_2)

text \<open>\<open>main\<close> runs with the framebuffer of the DRM node when that opens, else with
  \<open>/dev/fb0\<close>, else headless, and in every case holds at most the one descriptor it opened.\<close>

lemma main_fb_fallback:
  "fst (main_fb drm env env0) =
     (case fst (draw_open_fb drm env) of
        Inr f \<Rightarrow> Some f
      | Inl _ \<Rightarrow> (case fst (draw_open_fb0 env0) of Inr f \<Rightarrow> Some f | Inl _ \<Rightarrow> None))
   \<and> length (open_fds (snd (main_fb drm env env0)) fds)
     = length fds + (if fst (main_fb drm env env0) = None then 0 else 1)"
  by (auto simp: main_fb_def draw_open_fb_def draw_open_fb0_def opener_fds open_fds_append
      split: prod.splits sum.splits)

end
