(* ===== verification/Drawsrv_Cmd.thy ===== *)
theory Drawsrv_Cmd
  imports Drawsrv
begin

text \<open>
  The smaller draw server \<open>cmd/drawsrv/main.go\<close>: its own copies of the message codec and of the
  connection loop, a buffer of 4 MB, and no answer to \<open>Tbouncemouse\<close>. The codec is shown equal to
  that of \<open>drawsrv.go\<close>, and the server to answer like it on the requests both know.
\<close>

section \<open>The codec\<close>

definition cmd_pstr :: "bytes \<Rightarrow> nat \<Rightarrow> bytes \<Rightarrow> (nat \<times> bytes) go" where
  "cmd_pstr b n s =
     go_bind (p16 b n (of_nat (length s))) (\<lambda>b.
     go_bind (copy_bytes b (n + 2) s) (\<lambda>b. Ret (2 + length s, b)))"

definition cmd_gstr :: "bytes \<Rightarrow> nat \<Rightarrow> (nat \<times> bytes) go" where
  "cmd_gstr b off =
     (if off + 2 > length b then Ret (off, [])
      else go_bind (g16 b off) (\<lambda>v.
        let n = unat v; off2 = off + 2;
            n2 = (if off2 + n > length b then length b - off2 else n)
        in go_bind (go_slice b off2 (off2 + n2)) (\<lambda>s. Ret (off2 + n2, s))))"

definition cmd_sz :: "msg \<Rightarrow> nat" where
  "cmd_sz m =
     (if mT m = Rrdmouse then 2 + 17
      else if mT m = Rrdkbd then 2 + 2
      else if mT m = Rrddraw then 2 + (4 + unat (mN m))
      else if mT m = Rerror then 2 + (2 + length (mLbl m))
      else 2)"

definition cmd_wenc :: "msg \<Rightarrow> bytes \<Rightarrow> (nat \<times> bytes) go" where
  "cmd_wenc m b =
     go_bind (put_bytes b 0 [mT m, mTag m]) (\<lambda>b.
     if mT m = Rrdmouse then
       go_bind (p32 b 2 (mX m)) (\<lambda>b.
       go_bind (p32 b 6 (mY m)) (\<lambda>b.
       go_bind (p32 b 10 (mB m)) (\<lambda>b.
       go_bind (p32 b 14 (mMs m)) (\<lambda>b.
       go_bind (put_bytes b 18 [0]) (\<lambda>b. Ret (19, b))))))
     else if mT m = Rrdkbd then
       go_bind (p16 b 2 (ucast (mR m))) (\<lambda>b. Ret (4, b))
     else if mT m = Rrddraw then
       go_bind (p32 b 2 (mN m)) (\<lambda>b.
       go_bind (go_slice (mD m) 0 (unat (mN m))) (\<lambda>d.
       go_bind (copy_bytes b 6 d) (\<lambda>b. Ret (6 + unat (mN m), b))))
     else if mT m = Rerror then
       go_bind (cmd_pstr b 2 (mLbl m)) (\<lambda>(k, b). Ret (2 + k, b))
     else Ret (2, b))"

definition cmd_wdec :: "bytes \<Rightarrow> msg \<Rightarrow> (int \<times> msg) go" where
  "cmd_wdec b m =
     (if length b < 2 then Ret (- 1, m)
      else let m = m\<lparr>mT := b ! 0, mTag := b ! 1\<rparr> in
        if mT m = Tinit then
          go_bind (cmd_gstr b 2) (\<lambda>(n, ws).
          go_bind (cmd_gstr b n) (\<lambda>(n, lbl).
          go_bind (cmd_gstr b n) (\<lambda>_. Ret (int n, m\<lparr>mWs := ws, mLbl := lbl\<rparr>))))
        else if mT m = Trdmouse \<or> mT m = Trdkbd \<or> mT m = Ttop then Ret (2, m)
        else if mT m = Tmoveto then
          (if 2 + 8 \<le> length b then
             go_bind (g32 b 2) (\<lambda>x. go_bind (g32 b 6) (\<lambda>y. Ret (10, m\<lparr>mX := x, mY := y\<rparr>)))
           else Ret (2, m))
        else if mT m = Trddraw then
          (if 2 + 4 \<le> length b then go_bind (g32 b 2) (\<lambda>v. Ret (6, m\<lparr>mN := v\<rparr>))
           else Ret (2, m))
        else Ret (2, m))"

lemma cmd_strings: "cmd_pstr = pstr" "cmd_gstr = gstr"
  by (simp_all add: fun_eq_iff cmd_pstr_def pstr_def cmd_gstr_def gstr_def)

lemma cmd_codec: "cmd_sz = size_msg" "cmd_wenc = wenc" "cmd_wdec = wdec"
  by (simp add: fun_eq_iff cmd_sz_def size_msg_def)
    (rule ext; rule ext; simp only: cmd_wenc_def wenc_def cmd_wdec_def wdec_def cmd_strings)+

section \<open>Devices and dispatch\<close>

definition cmd_open_ui :: "uinput_env \<Rightarrow> (string + uinput) \<times> syscall list" where
  "cmd_open_ui env =
     (case uenv_open env of
        Inl e \<Rightarrow> (Inl e, [SysOpenFail ''/dev/uinput''])
      | Inr fd \<Rightarrow>
          finish_open env fd ''drawsrv-mouse'' 1
            [SysOpen ''/dev/uinput'' fd,
             ub fd 16 0x40045564 [1, 3, 0],
             ub fd 16 0x40045565 [0x110, 0x111, 0x112],
             ub fd 16 0x40045567 [0, 1],
             SysIoctl fd 0x40085560 (abs_info 8000),
             SysIoctl fd 0x40085561 (abs_info 4000)])"

definition cmd_ui_ev :: "u16 \<Rightarrow> u16 \<Rightarrow> i32 \<Rightarrow> uinput \<Rightarrow> uinput" where
  "cmd_ui_ev t c v u = u\<lparr>u_evs := u_evs u @ [(t, c, v)]\<rparr>"

definition cmd_ui_move :: "i32 \<Rightarrow> i32 \<Rightarrow> uinput \<Rightarrow> uinput" where
  "cmd_ui_move x y u = cmd_ui_ev 0 0 0 (cmd_ui_ev 3 1 y (cmd_ui_ev 3 0 x u))"

definition cmd_reply :: "cmd_fb option \<Rightarrow> reply_fn" where
  "cmd_reply fb m ui =
     (let r = msg0 in
      if mT m = Tinit then (r\<lparr>mT := Rinit, mTag := mTag m\<rparr>, ui)
      else if mT m = Trdmouse then (r\<lparr>mT := Rrdmouse, mTag := mTag m\<rparr>, ui)
      else if mT m = Trdkbd then (r\<lparr>mT := Rrdkbd, mTag := mTag m\<rparr>, ui)
      else if mT m = Trddraw then
        let r = r\<lparr>mT := Rrddraw, mTag := mTag m\<rparr> in
        (case fb of
           None \<Rightarrow> (r, ui)
         | Some f \<Rightarrow> let p = cmd_fb_copy f in (r\<lparr>mN := of_nat (length p), mD := p\<rparr>, ui))
      else if mT m = Tmoveto then
        (r\<lparr>mT := Rmoveto, mTag := mTag m\<rparr>, map_option (cmd_ui_move (mX m) (mY m)) ui)
      else (r\<lparr>mT := Rerror, mTag := mTag m, mLbl := unhandled (mT m)\<rparr>, ui))"

definition cmd_limit :: nat where
  "cmd_limit = 4194304"

definition cmd_serve ::
    "cmd_fb option \<Rightarrow> u8 conn \<Rightarrow> uinput option \<Rightarrow> (u8 conn \<times> uinput option) go" where
  "cmd_serve fb c ui =
     draw_loop cmd_limit cmd_wdec (send_frame cmd_sz cmd_wenc) (cmd_reply fb) [0, 0, 0, 0] c ui"

text \<open>\<open>main\<close> listens in the namespace directory.\<close>

definition cmd_listener :: "env \<Rightarrow> listener" where
  "cmd_listener env =
     (let ns = (if env ''NAMESPACE'' = [] then ''/tmp'' else env ''NAMESPACE'')
      in ListenUnix (path_join [ns, ''drawsrv'']))"

interpretation cmd_codec: wsys_codec cmd_sz cmd_wenc cmd_wdec
  unfolding cmd_codec by unfold_locales

interpretation cmd: draw_server cmd_sz cmd_wenc cmd_wdec cmd_limit "cmd_reply fb" for fb
proof unfold_locales
  fix m :: msg and ui :: "uinput option"
  show "data_ok (fst (cmd_reply fb m ui))"
    by (auto simp: cmd_reply_def data_ok_def Let_def wsys_codes msg0_def unat_of_nat_le
        split: option.split)
  show "mTag (fst (cmd_reply fb m ui)) = mTag m"
    by (auto simp: cmd_reply_def Let_def split: option.split)
  show "mT (fst (cmd_reply fb m ui)) = mT m + 1 \<or> mT (fst (cmd_reply fb m ui)) = Rerror"
    by (auto simp: cmd_reply_def Let_def wsys_codes split: option.split)
qed (simp add: cmd_limit_def)

section \<open>Properties\<close>

text \<open>Every request of a stream whose headers arrive whole is answered, in order, with
  its tag; the connection function then returns.\<close>

lemma cmd_serve_answers:
  assumes "requests cmd_limit fs c"
  shows "\<exists>c' ui' rs. cmd_serve fb c ui = Ret (c', ui')
    \<and> outp c' = outp c @ map (\<lambda>r. frame (wire r)) rs
    \<and> list_all2 (\<lambda>f r. mTag r = f ! 1 \<and> (mT r = f ! 0 + 1 \<or> mT r = Rerror)) fs rs"
proof -
  have "\<forall>f \<in> set fs. 2 \<le> length f" using assms by (simp add: requests_def)
  with cmd.loop_serves [OF assms, of "[0, 0, 0, 0]" fb ui] cmd.answers_heads
  show ?thesis unfolding cmd_serve_def by fastforce
qed

lemma cmd_serve_answers_example:
  "\<exists>c' ui' rs. cmd_serve None (demo_draw [[0, 0, 0, 2, 8, 7]]) None = Ret (c', ui')
    \<and> outp c' = map (\<lambda>r. frame (wire r)) rs \<and> map mTag rs = [7]"
proof -
  have "requests cmd_limit [[8, 7]] (demo_draw [[0, 0, 0, 2, 8, 7]])"
    by (simp add: requests_def demo_draw_def cmd_limit_def pending_def frame_def put_be32_def
        conn_read_def)
  from cmd_serve_answers [OF this, of None None] show ?thesis
    by (fastforce simp: demo_draw_def list_all2_Cons1)
qed

text \<open>The answers of the two servers to one request frame: the same, but for a bounce-mouse request,
  which \<open>drawsrv.go\<close> acknowledges and \<open>cmd/drawsrv\<close> refuses as unhandled.\<close>

definition answers_agree :: "bytes \<Rightarrow> bytes \<Rightarrow> bytes \<Rightarrow> bool" where
  "answers_agree f b1 b2 \<longleftrightarrow>
     (if f ! 0 = 8 then b1 = [0, 0, 0, 2, 9, f ! 1]
        \<and> b2 = [0, 0, 0, 15, 1, f ! 1, 0, 11] @ map of_char ''unhandled 8''
      else b1 = b2)"

lemma replies_agree:
  assumes "map_option dfb_data fb = map_option cfb_data fb'" and "2 \<le> length f"
  shows "answers_agree f (frame (wire (fst (exchange wdec (draw_reply fb) f u1))))
      (frame (wire (fst (exchange cmd_wdec (cmd_reply fb') f u2))))"
    and "f ! 0 \<noteq> 8 \<Longrightarrow> exchange cmd_wdec (cmd_reply fb') f u1 = exchange wdec (draw_reply fb) f u1"
proof -
  have mv: "cmd_ui_move x y = ui_move x y" for x y
    by (simp add: fun_eq_iff cmd_ui_move_def cmd_ui_ev_def ui_move_def ui_ev_def)
  have cp: "draw_fb_copy d = dfb_data d" "cmd_fb_copy e = cfb_data e" for d e
    by (rule drawsrv_fb.cp_pixels, rule cmd_drawsrv_fb.cp_pixels)
  obtain k m where m: "wdec f msg0 = Ret (k, m)" by (rule draw_codec.dec_some)
  then have t: "mT m = f ! 0" "mTag m = f ! 1" using draw_codec.dec_head assms(2) by blast+
  have same: "cmd_reply fb' m u = draw_reply fb m u" if "f ! 0 \<noteq> 8" for u
    using that assms(1) t
    by (cases fb; cases fb') (auto simp: cmd_reply_def draw_reply_def Let_def mv cp Tbouncemouse_def)
  have frm: "fst (draw_reply fb m u1) = fst (draw_reply fb m u2)"
    by (auto simp: draw_reply_def Let_def split: option.split)
  show "f ! 0 \<noteq> 8 \<Longrightarrow> exchange cmd_wdec (cmd_reply fb') f u1 = exchange wdec (draw_reply fb) f u1"
    using m same by (simp add: exchange_def cmd_codec)
  have i8: "itoa_nat 8 = ''8''" by (simp add: itoa_nat.simps digit_chars)
  show "answers_agree f (frame (wire (fst (exchange wdec (draw_reply fb) f u1))))
      (frame (wire (fst (exchange cmd_wdec (cmd_reply fb') f u2))))"
  proof (cases "f ! 0 = 8")
    case True
    then show ?thesis
      using t by (simp add: answers_agree_def exchange_def cmd_codec m draw_reply_def cmd_reply_def
          Let_def wsys_codes wire_def payload_def frame_def put_be32_def put_be16_def unhandled_def i8)
  next
    case False
    then show ?thesis using m same frm by (simp add: answers_agree_def exchange_def cmd_codec)
  qed
qed

lemma answer_lists_agree:
  assumes "map_option dfb_data fb = map_option cfb_data fb'" and "\<forall>f \<in> set fs. 2 \<le> length f"
    and "i < length fs"
  shows "answers_agree (fs ! i) (frame (wire (fst (answers wdec (draw_reply fb) fs u1) ! i)))
      (frame (wire (fst (answers cmd_wdec (cmd_reply fb') fs u2) ! i)))"
  using assms(2,3)
proof (induction fs arbitrary: u1 u2 i)
  case (Cons f fs)
  then show ?case
    using replies_agree(1) [OF assms(1), of f] by (cases i) (simp_all add: split_beta)
qed simp

text \<open>Claim C4. How the two draw servers compare on a stream of requests of at most 4 MB each whose
  headers arrive whole, for framebuffers with the same pixels: both answer every request, in
  order; to every request but a bounce-mouse one they write the same bytes, and to a bounce-mouse
  request \<open>drawsrv.go\<close> writes its acknowledgement (type 9) and \<open>cmd/drawsrv\<close> an error
  (\<open>unhandled 8\<close>). On a stream without bounce-mouse requests the whole output and the input events
  are the same.\<close>

theorem drawsrv_equivalent:
  assumes "requests cmd_limit fs c" and "map_option dfb_data fb = map_option cfb_data fb'"
  shows "\<exists>c1 c2 u1 u2 bs1 bs2. handle_draw fb c ui = Ret (c1, u1) \<and> cmd_serve fb' c ui = Ret (c2, u2)
    \<and> outp c1 = outp c @ bs1 \<and> outp c2 = outp c @ bs2
    \<and> length bs1 = length fs \<and> length bs2 = length fs
    \<and> (\<forall>i < length fs. answers_agree (fs ! i) (bs1 ! i) (bs2 ! i))
    \<and> ((\<forall>f \<in> set fs. f ! 0 \<noteq> 8) \<longrightarrow> outp c1 = outp c2 \<and> u1 = u2)"
proof -
  have len: "\<forall>f \<in> set fs. 2 \<le> length f" using assms(1) by (simp add: requests_def)
  have req: "requests draw_limit fs c"
    using assms(1) by (auto simp: requests_def draw_limit_def cmd_limit_def)
  let ?a1 = "answers wdec (draw_reply fb) fs ui" and ?a2 = "answers cmd_wdec (cmd_reply fb') fs ui"
  have ans: "\<forall>f \<in> set fs. f ! 0 \<noteq> 8 \<Longrightarrow> ?a2 = ?a1"
    using len replies_agree(2) [OF assms(2)] by (induction fs arbitrary: ui) auto
  obtain c1 where c1: "handle_draw fb c ui = Ret (c1, snd ?a1)"
      "outp c1 = outp c @ map (\<lambda>r. frame (wire r)) (fst ?a1)"
    using drawsrv.loop_serves [OF req, of "[0, 0, 0, 0]" fb ui] unfolding handle_draw_def by auto
  obtain c2 where c2: "cmd_serve fb' c ui = Ret (c2, snd ?a2)"
      "outp c2 = outp c @ map (\<lambda>r. frame (wire r)) (fst ?a2)"
    using cmd.loop_serves [OF assms(1), of "[0, 0, 0, 0]" fb' ui] unfolding cmd_serve_def by auto
  show ?thesis
    by (intro exI [of _ c1] exI [of _ c2] exI [of _ "snd ?a1"] exI [of _ "snd ?a2"]
        exI [of _ "map (\<lambda>r. frame (wire r)) (fst ?a1)"] exI [of _ "map (\<lambda>r. frame (wire r)) (fst ?a2)"])
      (use c1 c2 ans answer_lists_agree [OF assms(2) len] in simp)
qed

theorem drawsrv_equivalent_witness:
  "\<exists>c1 c2 u1 u2 b1 b2. handle_draw None (demo_draw [[0, 0, 0, 2, 2, 7, 0, 0, 0, 2], [8, 9]]) None = Ret (c1, u1)
    \<and> cmd_serve None (demo_draw [[0, 0, 0, 2, 2, 7, 0, 0, 0, 2], [8, 9]]) None = Ret (c2, u2)
    \<and> outp c1 = [b1, [0, 0, 0, 2, 9, 9]]
    \<and> outp c2 = [b1, [0, 0, 0, 15, 1, 9, 0, 11] @ map of_char ''unhandled 8'']"
proof -
  have "requests cmd_limit [[2, 7], [8, 9]] (demo_draw [[0, 0, 0, 2, 2, 7, 0, 0, 0, 2], [8, 9]])"
    by (simp add: requests_def demo_draw_def cmd_limit_def pending_def frame_def put_be32_def
        conn_read_def read_full_def read_full_loop.simps)
  from drawsrv_equivalent [OF this, of None None None] obtain c1 c2 u1 u2 bs1 bs2 where
    o: "handle_draw None (demo_draw [[0, 0, 0, 2, 2, 7, 0, 0, 0, 2], [8, 9]]) None = Ret (c1, u1)"
      "cmd_serve None (demo_draw [[0, 0, 0, 2, 2, 7, 0, 0, 0, 2], [8, 9]]) None = Ret (c2, u2)"
      "outp c1 = outp (demo_draw [[0, 0, 0, 2, 2, 7, 0, 0, 0, 2], [8, 9]]) @ bs1"
      "outp c2 = outp (demo_draw [[0, 0, 0, 2, 2, 7, 0, 0, 0, 2], [8, 9]]) @ bs2"
      "length bs1 = length [[2, 7], [8, 9 :: u8]]" "length bs2 = length [[2, 7], [8, 9 :: u8]]"
    and ag: "\<forall>i < length [[2, 7], [8, 9 :: u8]]. answers_agree ([[2, 7], [8, 9]] ! i) (bs1 ! i) (bs2 ! i)"
    by auto
  have op: "outp (demo_draw segs) = []" for segs by (simp add: demo_draw_def)
  have a: "answers_agree ([[2, 7], [8, 9]] ! 0) (bs1 ! 0) (bs2 ! 0)"
      "answers_agree ([[2, 7], [8, 9]] ! 1) (bs1 ! 1) (bs2 ! 1)"
    using ag [rule_format, of 0] ag [rule_format, of 1] by simp_all
  have "bs1 = [bs1 ! 0, bs1 ! 1]" "bs2 = [bs2 ! 0, bs2 ! 1]"
    using o(5,6) by (auto simp: length_Suc_conv)
  moreover have "bs1 ! 0 = bs2 ! 0" "bs1 ! 1 = [0, 0, 0, 2, 9, 9]"
    "bs2 ! 1 = [0, 0, 0, 15, 1, 9, 0, 11] @ map of_char ''unhandled 8''"
    using a by (simp_all add: answers_agree_def)
  ultimately show ?thesis using o(1-4) unfolding op append_Nil by metis
qed

end
