(* ===== verification/Fid_Stream.thy ===== *)
theory Fid_Stream
  imports Go_Base
begin

text \<open>
  An output stream that several 9P fids read, each from its own offset: the contract shared by
  the agents of \<open>cmd/rcpud/gortns.go\<close> (\<open>writeOut\<close>, \<open>openReader\<close>, \<open>readOut\<close>, \<open>closeReader\<close>) and
  the \<open>agentBuf\<close> of \<open>cmd/l9term/main.go\<close>. A read that finds no data in an open stream waits; the
  operations here are the critical sections of the code, and a waiting reader runs its section
  again when it wakes.

  The locale states what every implementation keeps; its client lemma is that a reader gets every
  byte from its start position once and in order, whatever the others do in between.
\<close>

datatype read_result = Data string | Eof | Wait

section \<open>Clients\<close>

datatype stream_op = OpOpen nat | OpWrite string | OpRead nat nat | OpClunk nat

text \<open>The fids an operation opens or closes.\<close>

fun touches :: "stream_op \<Rightarrow> nat \<Rightarrow> bool" where
  "touches (OpOpen f) fid = (f = fid)"
| "touches (OpClunk f) fid = (f = fid)"
| "touches _ fid = False"

fun stream_step ::
    "(nat \<Rightarrow> 's \<Rightarrow> 's) \<Rightarrow> (string \<Rightarrow> 's \<Rightarrow> 's) \<Rightarrow> (nat \<Rightarrow> nat \<Rightarrow> 's \<Rightarrow> read_result \<times> 's) \<Rightarrow> (nat \<Rightarrow> 's \<Rightarrow> 's)
     \<Rightarrow> stream_op \<Rightarrow> 's \<Rightarrow> read_result \<times> 's" where
  "stream_step opn wr rd clunk (OpOpen f) s = (Wait, opn f s)"
| "stream_step opn wr rd clunk (OpWrite d) s = (Wait, wr d s)"
| "stream_step opn wr rd clunk (OpRead f n) s = rd f n s"
| "stream_step opn wr rd clunk (OpClunk f) s = (Wait, clunk f s)"

text \<open>What \<open>fid\<close> receives in a sequence of operations.\<close>

definition got :: "nat \<Rightarrow> stream_op \<Rightarrow> read_result \<Rightarrow> string" where
  "got fid oper r =
     (case (oper, r) of (OpRead f n, Data d) \<Rightarrow> (if f = fid then d else []) | _ \<Rightarrow> [])"

fun received ::
    "(nat \<Rightarrow> 's \<Rightarrow> 's) \<Rightarrow> (string \<Rightarrow> 's \<Rightarrow> 's) \<Rightarrow> (nat \<Rightarrow> nat \<Rightarrow> 's \<Rightarrow> read_result \<times> 's) \<Rightarrow> (nat \<Rightarrow> 's \<Rightarrow> 's)
     \<Rightarrow> nat \<Rightarrow> stream_op list \<Rightarrow> 's \<Rightarrow> string \<times> 's" where
  "received opn wr rd clunk fid [] s = ([], s)"
| "received opn wr rd clunk fid (oper # ops) s =
     (let (r, s1) = stream_step opn wr rd clunk oper s;
          (ds, s2) = received opn wr rd clunk fid ops s1
      in (got fid oper r @ ds, s2))"

section \<open>The contract\<close>

locale fid_stream =
  fixes opn :: "nat \<Rightarrow> 's \<Rightarrow> 's"
    and wr :: "string \<Rightarrow> 's \<Rightarrow> 's"
    and rd :: "nat \<Rightarrow> nat \<Rightarrow> 's \<Rightarrow> read_result \<times> 's"
    and clunk :: "nat \<Rightarrow> 's \<Rightarrow> 's"
    and out :: "'s \<Rightarrow> string"
    and pos :: "nat \<Rightarrow> 's \<Rightarrow> nat"
    and inv :: "'s \<Rightarrow> bool"
  assumes inv_pos: "inv s \<Longrightarrow> pos f s \<le> length (out s)"
    and opn_keeps: "inv s \<Longrightarrow> inv (opn f s) \<and> out (opn f s) = out s \<and> (g \<noteq> f \<longrightarrow> pos g (opn f s) = pos g s)"
    and clunk_keeps: "inv s \<Longrightarrow>
      inv (clunk f s) \<and> out (clunk f s) = out s \<and> (g \<noteq> f \<longrightarrow> pos g (clunk f s) = pos g s)"
    and wr_appends: "inv s \<Longrightarrow> inv (wr d s) \<and> out (wr d s) = out s @ d \<and> pos g (wr d s) = pos g s"
    and rd_data: "inv s \<Longrightarrow> rd f n s = (Data d, s') \<Longrightarrow>
      inv s' \<and> out s' = out s \<and> d = take n (drop (pos f s) (out s)) \<and> pos f s' = pos f s + length d
      \<and> (g \<noteq> f \<longrightarrow> pos g s' = pos g s)"
    and rd_none: "inv s \<Longrightarrow> rd f n s = (r, s') \<Longrightarrow> r = Eof \<or> r = Wait \<Longrightarrow>
      s' = s \<and> pos f s = length (out s)"
begin

abbreviation step :: "stream_op \<Rightarrow> 's \<Rightarrow> read_result \<times> 's" where
  "step \<equiv> stream_step opn wr rd clunk"

abbreviation recv :: "nat \<Rightarrow> stream_op list \<Rightarrow> 's \<Rightarrow> string \<times> 's" where
  "recv \<equiv> received opn wr rd clunk"

lemma step_keeps:
  assumes "inv s" and "\<not> touches oper fid" and "step oper s = (r, s')"
  shows "inv s'" and "\<exists>d. out s' = out s @ d"
    and "pos fid s' = pos fid s + length (got fid oper r)"
    and "got fid oper r = take (length (got fid oper r)) (drop (pos fid s) (out s))"
proof -
  have "inv s' \<and> (\<exists>d. out s' = out s @ d) \<and> pos fid s' = pos fid s + length (got fid oper r)
      \<and> got fid oper r = take (length (got fid oper r)) (drop (pos fid s) (out s))"
  proof (cases oper)
    case (OpOpen f)
    with assms opn_keeps [of s f fid] show ?thesis by (auto simp: got_def)
  next
    case (OpWrite d)
    with assms wr_appends [of s d fid] show ?thesis by (auto simp: got_def)
  next
    case (OpClunk f)
    with assms clunk_keeps [of s f fid] show ?thesis by (auto simp: got_def)
  next
    case (OpRead f n)
    with assms(3) have r: "rd f n s = (r, s')" by simp
    show ?thesis
    proof (cases r)
      case (Data d)
      with rd_data [OF assms(1), of f n d s' fid] r OpRead show ?thesis
        by (auto simp: got_def min_def)
    next
      case Eof
      with rd_none [OF assms(1) r] assms(1) OpRead show ?thesis by (auto simp: got_def)
    next
      case Wait
      with rd_none [OF assms(1) r] assms(1) OpRead show ?thesis by (auto simp: got_def)
    qed
  qed
  then show "inv s'" and "\<exists>d. out s' = out s @ d"
    and "pos fid s' = pos fid s + length (got fid oper r)"
    and "got fid oper r = take (length (got fid oper r)) (drop (pos fid s) (out s))"
    by iprover+
qed

lemma reader_stream:
  assumes "inv s" and "\<forall>oper \<in> set ops. \<not> touches oper fid"
  shows "fst (recv fid ops s)
      = take (length (fst (recv fid ops s))) (drop (pos fid s) (out (snd (recv fid ops s))))
    \<and> pos fid (snd (recv fid ops s)) = pos fid s + length (fst (recv fid ops s))
    \<and> inv (snd (recv fid ops s)) \<and> (\<exists>d. out (snd (recv fid ops s)) = out s @ d)"
  using assms
proof (induction ops arbitrary: s)
  case Nil
  then show ?case by simp
next
  case (Cons oper ops)
  obtain r s1 where r: "step oper s = (r, s1)" by (metis prod.exhaust)
  note k = step_keeps [OF Cons.prems(1) _ r, of fid]
  have nt: "\<not> touches oper fid" using Cons.prems(2) by simp
  obtain ds s2 where ds: "recv fid ops s1 = (ds, s2)" by (metis prod.exhaust)
  have ih: "ds = take (length ds) (drop (pos fid s1) (out s2))" "pos fid s2 = pos fid s1 + length ds"
    "inv s2" "\<exists>d. out s2 = out s1 @ d"
    using Cons.IH [OF k(1) [OF nt]] Cons.prems(2) ds by auto
  let ?g = "got fid oper r"
  obtain d1 where d1: "out s1 = out s @ d1" using k(2) [OF nt] by blast
  obtain d2 where d2: "out s2 = out s1 @ d2" using ih(4) by blast
  have p: "pos fid s \<le> length (out s)" by (rule inv_pos [OF Cons.prems(1)])
  have gl: "length ?g \<le> length (drop (pos fid s) (out s))"
    using arg_cong [OF k(4) [OF nt], of length] by simp
  have g: "?g = take (length ?g) (drop (pos fid s) (out s2))"
    using k(4) [OF nt] gl p by (simp add: d1 d2)
  have "drop (pos fid s1) (out s2) = drop (length ?g) (drop (pos fid s) (out s2))"
    by (simp add: k(3) [OF nt] add.commute)
  then have e: "?g @ ds = take (length (?g @ ds)) (drop (pos fid s) (out s2))"
    using g ih(1) by (metis take_add length_append)
  have rc: "recv fid (oper # ops) s = (?g @ ds, s2)" using r ds by simp
  have "\<exists>d. out s2 = out s @ d" using d1 d2 by simp
  moreover have "pos fid s2 = pos fid s + length (?g @ ds)" using ih(2) k(3) [OF nt] by simp
  ultimately show ?case
    unfolding rc fst_conv snd_conv using e ih(3) by blast
qed

text \<open>Once a read says there is nothing, the reader has everything written so far.\<close>

lemma reader_caught_up:
  assumes "inv s" and "\<forall>oper \<in> set ops. \<not> touches oper fid"
    and "rd fid n (snd (recv fid ops s)) = (r, s')" and "r = Eof \<or> r = Wait"
  shows "fst (recv fid ops s) = drop (pos fid s) (out s')"
proof -
  note rs = reader_stream [OF assms(1,2)]
  have e: "s' = snd (recv fid ops s)" "pos fid s' = length (out s')"
    using rd_none [OF _ assms(3,4)] rs by auto
  then have "pos fid s + length (fst (recv fid ops s)) = length (out s')"
    using rs by simp
  with rs e(1) show ?thesis by (metis length_drop add_diff_cancel_left' order_refl take_all)
qed

end

text \<open>The tracking of offsets that both implementations share: \<open>readers[fid]\<close> of a Go map is 0 for
  a fid that is not there.\<close>

definition reader_pos :: "(nat \<rightharpoonup> nat) \<Rightarrow> nat \<Rightarrow> nat" where
  "reader_pos m f = (case m f of Some n \<Rightarrow> n | None \<Rightarrow> 0)"

lemma reader_pos_upd [simp]:
  "reader_pos (m(f \<mapsto> n)) g = (if g = f then n else reader_pos m g)"
  "reader_pos (m(f := None)) g = (if g = f then 0 else reader_pos m g)"
  by (simp_all add: reader_pos_def)

end
