(* ===== verification/Progress.thy ===== *)
theory Progress
  imports Main
begin

text \<open>
  Runs of a labelled step relation, and progress: the locale \<open>worker\<close> is a process that has steps of
  its own (the others are its environment's), an amount of work that its own steps use up, and
  states in which it rests. Left alone it comes to rest, whatever it does first.
\<close>

inductive steps :: "('s \<Rightarrow> 'l \<Rightarrow> 's \<Rightarrow> bool) \<Rightarrow> 's \<Rightarrow> 'l list \<Rightarrow> 's \<Rightarrow> bool"
  for step :: "'s \<Rightarrow> 'l \<Rightarrow> 's \<Rightarrow> bool" where
  steps_nil: "steps step s [] s"
| steps_cons: "step s l s1 \<Longrightarrow> steps step s1 ls s2 \<Longrightarrow> steps step s (l # ls) s2"

inductive_simps steps_nil_iff [simp]: "steps step s [] s'"
inductive_simps steps_cons_iff: "steps step s (l # ls) s'"

lemma steps_append:
  "steps step s (ls @ ms) s' \<longleftrightarrow> (\<exists>s1. steps step s ls s1 \<and> steps step s1 ms s')"
  by (induction ls arbitrary: s) (auto simp: steps_cons_iff)

lemma steps_snoc: "steps step s ls s1 \<Longrightarrow> step s1 l s2 \<Longrightarrow> steps step s (ls @ [l]) s2"
  by (auto simp: steps_append intro: steps.intros)

lemma steps_invariant:
  assumes "steps step s ls s'" and "\<And>s l s'. step s l s' \<Longrightarrow> P s \<Longrightarrow> P s'" and "P s"
  shows "P s'"
  using assms by (induction rule: steps.induct) auto

locale worker =
  fixes step :: "'s \<Rightarrow> 'l \<Rightarrow> 's \<Rightarrow> bool"
    and own :: "'l \<Rightarrow> bool"
    and work :: "'s \<Rightarrow> nat"
    and ok :: "'s \<Rightarrow> bool"
    and rest :: "'s \<Rightarrow> bool"
  assumes step_ok: "step s l s' \<Longrightarrow> ok s \<Longrightarrow> ok s'"
    and own_less: "step s l s' \<Longrightarrow> own l \<Longrightarrow> work s' < work s"
    and moves: "ok s \<Longrightarrow> \<not> rest s \<Longrightarrow> \<exists>l s'. own l \<and> step s l s'"
    and rests: "rest s \<Longrightarrow> step s l s' \<Longrightarrow> \<not> own l"
begin

lemma steps_ok: "steps step s ls s' \<Longrightarrow> ok s \<Longrightarrow> ok s'"
  by (erule steps_invariant) (rule step_ok)

lemma own_bounded: "steps step s ls s' \<Longrightarrow> list_all own ls \<Longrightarrow> length ls + work s' \<le> work s"
  by (induction rule: steps.induct) (auto dest: own_less)

lemma stuck_iff: "ok s \<Longrightarrow> (\<nexists>l s'. own l \<and> step s l s') \<longleftrightarrow> rest s"
  using moves rests by blast

lemma comes_to_rest: "ok s \<Longrightarrow> \<exists>ls s'. steps step s ls s' \<and> list_all own ls \<and> rest s'"
proof (induction "work s" arbitrary: s rule: less_induct)
  case less
  show ?case
  proof (cases "rest s")
    case True
    then show ?thesis using steps_nil [of step s] by (intro exI [of _ "[]"]) auto
  next
    case False
    then obtain l s1 where l: "own l" "step s l s1" using moves less.prems by blast
    with less.hyps [of s1] own_less step_ok less.prems obtain ls s' where
      "steps step s1 ls s'" "list_all own ls" "rest s'" by blast
    with l have "steps step s (l # ls) s' \<and> list_all own (l # ls) \<and> rest s'"
      by (auto intro: steps_cons)
    then show ?thesis by blast
  qed
qed

text \<open>Own steps only: bounded, stuck exactly at rest, and always able to get there.\<close>

lemma settles:
  assumes "ok s" and "steps step s ls s'" and "list_all own ls"
  shows "length ls \<le> work s \<and> ((\<nexists>l s''. own l \<and> step s' l s'') \<longleftrightarrow> rest s')
    \<and> (\<exists>ms s''. steps step s' ms s'' \<and> list_all own ms \<and> rest s'')"
  using own_bounded [OF assms(2,3)] stuck_iff comes_to_rest steps_ok [OF assms(2,1)] by auto

end

end
