(* ===== verification/Gortns.thy ===== *)
theory Gortns
  imports Fid_Stream Offset_File Go_Strings Progress
begin

text \<open>
  The agents of \<open>cmd/rcpud/gortns.go\<close>: the state of one agent, the operations of its files, and
  its goroutines as a step relation; then the manager that keeps the agents and their
  directories.

  One agent has a run loop (\<open>run\<close>), one goroutine per executed command that feeds its standard
  input (a pump), and the 9P readers blocked in \<open>readOut\<close>. Each step below is one critical
  section or one channel operation of one of them. The channels \<open>in\<close> and \<open>ctl\<close> are queues of at
  most 256 and 8 entries, \<open>outWake\<close> is one token, and \<open>stop\<close> has no buffer: a send on it finds a
  receiver that waits at that moment or is given up.

  Offsets are natural numbers: \<open>reader_pos\<close> never exceeds the length of the output (an invariant
  below), so the unsigned subtraction of \<open>readOut\<close> does not wrap.
\<close>

section \<open>State\<close>

datatype gortn_state = StateIdle | StateRunning | StateStopped

fun state_text :: "gortn_state \<Rightarrow> string" where
  "state_text StateIdle = ''idle''"
| "state_text StateRunning = ''running''"
| "state_text StateStopped = ''stopped''"

text \<open>Where the run goroutine is: not started, at the select, inside \<open>handleCtl\<close>, waiting for the
  command with the given number, or returned.\<close>

datatype phase = Starting | AtSelect | Handling string | Execing nat | Finished

record gortn =
  g_id :: string
  g_thought :: string
  g_state :: gortn_state
  g_status :: string
  g_out :: string
  g_wake :: bool
  g_closed :: bool
  g_in :: "string list"
  g_ctl :: "string list"
  g_readers :: "nat \<rightharpoonup> nat"
  g_blocked :: "nat set"              \<comment> \<open>fids waiting in \<open>readOut\<close>\<close>
  g_phase :: phase
  g_pumps :: "bool list"              \<comment> \<open>one per command: still running\<close>
  g_stdin :: "(nat \<times> string) list"    \<comment> \<open>input that reached a command\<close>
  g_lost :: "string list"             \<comment> \<open>input taken for a command that has ended\<close>

definition new_gortn :: "string \<Rightarrow> string \<Rightarrow> gortn" where
  "new_gortn gid thought =
     \<lparr>g_id = gid, g_thought = thought, g_state = StateIdle, g_status = [], g_out = [],
      g_wake = False, g_closed = False, g_in = [], g_ctl = [], g_readers = Map.empty,
      g_blocked = {}, g_phase = Starting, g_pumps = [], g_stdin = [], g_lost = []\<rparr>"

section \<open>Operations\<close>

definition set_state :: "gortn_state \<Rightarrow> string \<Rightarrow> gortn \<Rightarrow> gortn" where
  "set_state s detail g = g\<lparr>g_state := s, g_status := detail\<rparr>"

definition write_out :: "string \<Rightarrow> gortn \<Rightarrow> gortn" where
  "write_out d g = g\<lparr>g_out := g_out g @ d, g_wake := True\<rparr>"

definition open_reader :: "nat \<Rightarrow> gortn \<Rightarrow> gortn" where
  "open_reader fid g = g\<lparr>g_readers := (g_readers g)(fid \<mapsto> 0)\<rparr>"

definition close_reader :: "nat \<Rightarrow> gortn \<Rightarrow> gortn" where
  "close_reader fid g = g\<lparr>g_readers := (g_readers g)(fid := None)\<rparr>"

text \<open>One turn of the loop of \<open>readOut\<close>. Fetching the offset and the section under \<open>g.mu\<close> are one
  step here: between them only an open, read or clunk of the same fid could make a difference, and
  a fid is used by one request at a time.\<close>

definition read_out :: "nat \<Rightarrow> nat \<Rightarrow> gortn \<Rightarrow> read_result \<times> gortn" where
  "read_out fid count g =
     (let offset = reader_pos (g_readers g) fid; avail = length (g_out g) - offset in
      if avail > 0 then
        let n = (if count > avail then avail else count);
            data = take n (drop offset (g_out g))
        in (Data data, g\<lparr>g_readers := (g_readers g)(fid \<mapsto> offset + n)\<rparr>)
      else if g_closed g then (Eof, g)
      else (Wait, g))"

definition gortn_tag :: "gortn \<Rightarrow> string" where
  "gortn_tag g = ''[gortns '' @ g_id g @ ''] ''"

text \<open>The start of \<open>run\<close> and what it does when it receives \<open>stop\<close>.\<close>

definition run_start :: "gortn \<Rightarrow> gortn" where
  "run_start g =
     (write_out (gortn_tag g @ g_thought g @ ''\<newline>'')
        (set_state StateRunning ''agent loop started'' g))\<lparr>g_phase := AtSelect\<rparr>"

definition run_stopped :: "gortn \<Rightarrow> gortn" where
  "run_stopped g =
     (let g1 = set_state StateStopped ''stopped'' g;
          g2 = (if g_closed g1 then g1
                else g1\<lparr>g_closed := True, g_out := g_out g1 @ gortn_tag g1 @ ''stopped'' @ ''\<newline>''\<rparr>)
      in g2\<lparr>g_wake := True, g_phase := Finished\<rparr>)"

text \<open>\<open>handleCtl\<close>: verb and argument.\<close>

definition ctl_parts :: "string \<Rightarrow> string \<times> string" where
  "ctl_parts line =
     (let parts = splitn2 (CHR '' '') (trim_space line) in
      (parts ! 0, if length parts > 1 then parts ! 1 else []))"

definition handle_echo :: "string \<Rightarrow> gortn \<Rightarrow> gortn" where
  "handle_echo arg g = write_out (arg @ ''\<newline>'') g"

definition unknown_cmd :: "string \<Rightarrow> gortn \<Rightarrow> gortn" where
  "unknown_cmd verb g = write_out (gortn_tag g @ ''unknown cmd: '' @ verb @ ''\<newline>'') g"

text \<open>The two messages of \<open>handleSpawn\<close>; \<open>res\<close> is the result of the manager.\<close>

definition handle_spawn :: "string \<Rightarrow> string \<Rightarrow> string option \<Rightarrow> gortn \<Rightarrow> gortn" where
  "handle_spawn gid arg res g =
     (case res of
        Some e \<Rightarrow> write_out (gortn_tag g @ ''spawn error: '' @ e @ ''\<newline>'') g
      | None \<Rightarrow> write_out (gortn_tag g @ ''spawned '' @ gid @ '': '' @ arg @ ''\<newline>'') g)"

text \<open>\<open>execCommand\<close> up to the start of the command, and after its end.\<close>

definition exec_begin :: "string \<Rightarrow> gortn \<Rightarrow> gortn" where
  "exec_begin cmd g =
     (let g1 = write_out (''$ '' @ cmd @ ''\<newline>'') (set_state StateRunning (''exec: '' @ cmd) g) in
      g1\<lparr>g_phase := Execing (length (g_pumps g1)), g_pumps := g_pumps g1 @ [True]\<rparr>)"

datatype exec_result = Exited nat | Failed string

definition exec_end :: "exec_result \<Rightarrow> gortn \<Rightarrow> gortn" where
  "exec_end r g =
     (case r of
        Exited n \<Rightarrow> set_state StateIdle (''done: '' @ itoa_nat n) g
      | Failed e \<Rightarrow> set_state StateIdle (''error: '' @ e) g)\<lparr>g_phase := AtSelect\<rparr>"

text \<open>A pump takes one entry of \<open>in\<close> and writes it to the pipe of its command; the pipe of a
  command that has ended is closed and the data is gone.\<close>

definition pump_take :: "nat \<Rightarrow> gortn \<Rightarrow> gortn" where
  "pump_take i g =
     (case g_in g of
        [] \<Rightarrow> g
      | d # ds \<Rightarrow>
          if g_phase g = Execing i then g\<lparr>g_in := ds, g_stdin := g_stdin g @ [(i, d)]\<rparr>
          else g\<lparr>g_in := ds, g_lost := g_lost g @ [d]\<rparr>)"

subsection \<open>Files\<close>

definition status_line :: "gortn \<Rightarrow> string" where
  "status_line g =
     state_text (g_state g) @ (if g_status g \<noteq> [] then '' '' @ g_status g else []) @ ''\<newline>''"

definition status_read :: "gortn \<Rightarrow> u64 \<Rightarrow> u64 \<Rightarrow> (goerr + string) go" where
  "status_read g offset count = read_window EOF (status_line g) offset count"

text \<open>The write to \<open>ctl\<close> blocks while the queue is full: \<open>None\<close>.\<close>

definition ctl_write :: "string \<Rightarrow> gortn \<Rightarrow> gortn option" where
  "ctl_write d g =
     (if length (g_ctl g) < 8 then Some (g\<lparr>g_ctl := g_ctl g @ [trim_space d]\<rparr>) else None)"

definition in_write :: "string \<Rightarrow> gortn \<Rightarrow> gortn" where
  "in_write d g = (if length (g_in g) < 256 then g\<lparr>g_in := g_in g @ [d]\<rparr> else g)"

definition arg_write :: "string \<Rightarrow> gortn \<Rightarrow> gortn" where
  "arg_write d g =
     (let arg = trim_space d in
      if arg \<noteq> [] \<and> length (g_ctl g) < 8 then g\<lparr>g_ctl := g_ctl g @ [''exec '' @ arg]\<rparr> else g)"

definition arg_read :: "gortn \<Rightarrow> u64 \<Rightarrow> u64 \<Rightarrow> goerr + string" where
  "arg_read g offset count = Inl EOF"

section \<open>Steps\<close>

text \<open>\<open>stopAgent\<close>: the value goes to one goroutine that waits in a select with \<open>stop\<close> (the run
  loop, a pump, a blocked reader); with none waiting the default branch gives it up. It is called
  by the command \<open>stop\<close>, then by the run goroutine itself (\<open>DoStop\<close>), and by
  \<open>GortnManager.Remove\<close> at any time (\<open>StopSent\<close>): from another goroutine, or deferred by \<open>run\<close>
  after it has returned from its loop.\<close>

inductive stop_agent :: "gortn \<Rightarrow> gortn \<Rightarrow> bool" where
  to_run: "g_phase g = AtSelect \<Longrightarrow> stop_agent g (run_stopped g)"
| to_pump: "i < length (g_pumps g) \<Longrightarrow> g_pumps g ! i \<Longrightarrow>
    stop_agent g (g\<lparr>g_pumps := (g_pumps g)[i := False]\<rparr>)"
| to_reader: "fid \<in> g_blocked g \<Longrightarrow> stop_agent g (g\<lparr>g_blocked := g_blocked g - {fid}\<rparr>)"
| given_up: "g_phase g \<noteq> AtSelect \<Longrightarrow> True \<notin> set (g_pumps g) \<Longrightarrow> g_blocked g = {} \<Longrightarrow> stop_agent g g"

datatype glabel =
    Run | CtlWrite string | InWrite string | ArgWrite string | ArgDropped string | Open nat | Clunk nat
  | ReadData nat nat string | ReadEof nat | Block nat | Woken nat | TimedOut nat
  | TakeCtl string | DoEcho string | DoUnknown string | DoSpawn string string "string option"
  | DoStop | StopSent | ExecStart string | ExecOutput string | ExecEnd exec_result | Pump nat

inductive gstep :: "gortn \<Rightarrow> glabel \<Rightarrow> gortn \<Rightarrow> bool" where
  s_run: "g_phase g = Starting \<Longrightarrow> gstep g Run (run_start g)"
| s_ctl: "ctl_write d g = Some g' \<Longrightarrow> gstep g (CtlWrite d) g'"
| s_in: "gstep g (InWrite d) (in_write d g)"
| s_arg: "trim_space d \<noteq> [] \<Longrightarrow> length (g_ctl g) < 8 \<Longrightarrow> gstep g (ArgWrite d) (arg_write d g)"
| s_arg_drop: "trim_space d = [] \<or> 8 \<le> length (g_ctl g) \<Longrightarrow> gstep g (ArgDropped d) (arg_write d g)"
| s_open: "gstep g (Open fid) (open_reader fid g)"
| s_clunk: "gstep g (Clunk fid) (close_reader fid g)"
| s_data: "fid \<notin> g_blocked g \<Longrightarrow> read_out fid n g = (Data d, g') \<Longrightarrow> gstep g (ReadData fid n d) g'"
| s_eof: "fid \<notin> g_blocked g \<Longrightarrow> read_out fid n g = (Eof, g') \<Longrightarrow> gstep g (ReadEof fid) g'"
| s_block: "fid \<notin> g_blocked g \<Longrightarrow> read_out fid n g = (Wait, g') \<Longrightarrow>
    gstep g (Block fid) (g'\<lparr>g_blocked := insert fid (g_blocked g')\<rparr>)"
| s_wake: "fid \<in> g_blocked g \<Longrightarrow> g_wake g \<Longrightarrow>
    gstep g (Woken fid) (g\<lparr>g_wake := False, g_blocked := g_blocked g - {fid}\<rparr>)"
| s_timeout: "fid \<in> g_blocked g \<Longrightarrow>
    gstep g (TimedOut fid) (g\<lparr>g_blocked := g_blocked g - {fid}\<rparr>)"
| s_take: "g_phase g = AtSelect \<Longrightarrow> g_ctl g = c # cs \<Longrightarrow>
    gstep g (TakeCtl c) (g\<lparr>g_ctl := cs, g_phase := Handling (trim_space c)\<rparr>)"
| s_echo: "g_phase g = Handling c \<Longrightarrow> ctl_parts c = (''echo'', arg) \<Longrightarrow>
    gstep g (DoEcho arg) ((handle_echo arg g)\<lparr>g_phase := AtSelect\<rparr>)"
| s_exec: "g_phase g = Handling c \<Longrightarrow> ctl_parts c = (''exec'', arg) \<Longrightarrow>
    gstep g (ExecStart arg) (exec_begin arg g)"
| s_spawn: "g_phase g = Handling c \<Longrightarrow> ctl_parts c = (''spawn'', arg) \<Longrightarrow>
    gstep g (DoSpawn gid arg res) ((handle_spawn gid arg res g)\<lparr>g_phase := AtSelect\<rparr>)"
| s_stop: "g_phase g = Handling c \<Longrightarrow> ctl_parts c = (''stop'', arg) \<Longrightarrow> stop_agent g g' \<Longrightarrow>
    gstep g DoStop (g'\<lparr>g_phase := AtSelect\<rparr>)"
| s_stop_sent: "stop_agent g g' \<Longrightarrow> gstep g StopSent g'"
| s_unknown: "g_phase g = Handling c \<Longrightarrow> ctl_parts c = (verb, arg) \<Longrightarrow>
    verb \<notin> {''echo'', ''exec'', ''spawn'', ''stop''} \<Longrightarrow>
    gstep g (DoUnknown verb) ((unknown_cmd verb g)\<lparr>g_phase := AtSelect\<rparr>)"
| s_output: "g_phase g = Execing i \<Longrightarrow> d \<noteq> [] \<Longrightarrow> gstep g (ExecOutput d) (write_out d g)"
| s_end: "g_phase g = Execing i \<Longrightarrow> gstep g (ExecEnd r) (exec_end r g)"
| s_pump: "i < length (g_pumps g) \<Longrightarrow> g_pumps g ! i \<Longrightarrow> g_in g \<noteq> [] \<Longrightarrow>
    gstep g (Pump i) (pump_take i g)"

inductive reachable :: "gortn \<Rightarrow> bool" where
  start: "reachable (new_gortn gid thought)"
| step: "reachable g \<Longrightarrow> gstep g l g' \<Longrightarrow> reachable g'"

abbreviation trace :: "gortn \<Rightarrow> glabel list \<Rightarrow> gortn \<Rightarrow> bool" where
  "trace \<equiv> steps gstep"

inductive_cases stop_agentE: "stop_agent g g'"
inductive_cases gstepE: "gstep g l g'"

lemmas gortn_ops = set_state_def write_out_def open_reader_def close_reader_def run_start_def
  run_stopped_def handle_echo_def unknown_cmd_def exec_begin_def ctl_write_def in_write_def
  arg_write_def Let_def

lemma trace_reachable: "trace g ls g' \<Longrightarrow> reachable g \<Longrightarrow> reachable g'"
  by (erule steps_invariant) (rule reachable.step)


section \<open>The output stream\<close>

definition readers_ok :: "gortn \<Rightarrow> bool" where
  "readers_ok g \<longleftrightarrow> (\<forall>f. reader_pos (g_readers g) f \<le> length (g_out g))"

definition gortn_pos :: "nat \<Rightarrow> gortn \<Rightarrow> nat" where
  "gortn_pos f g = reader_pos (g_readers g) f"

interpretation out_stream: fid_stream open_reader write_out read_out close_reader g_out gortn_pos readers_ok
proof unfold_locales
  fix s s' :: gortn and f h n :: nat and d r
  show "readers_ok s \<Longrightarrow> gortn_pos f s \<le> length (g_out s)"
    by (simp add: readers_ok_def gortn_pos_def)
  show "readers_ok s \<Longrightarrow> readers_ok (open_reader f s) \<and> g_out (open_reader f s) = g_out s
      \<and> (h \<noteq> f \<longrightarrow> gortn_pos h (open_reader f s) = gortn_pos h s)"
    by (simp add: readers_ok_def gortn_pos_def open_reader_def)
  show "readers_ok s \<Longrightarrow> readers_ok (close_reader f s) \<and> g_out (close_reader f s) = g_out s
      \<and> (h \<noteq> f \<longrightarrow> gortn_pos h (close_reader f s) = gortn_pos h s)"
    by (simp add: readers_ok_def gortn_pos_def close_reader_def)
  show "readers_ok s \<Longrightarrow> readers_ok (write_out d s) \<and> g_out (write_out d s) = g_out s @ d
      \<and> gortn_pos h (write_out d s) = gortn_pos h s"
    by (auto simp: readers_ok_def gortn_pos_def write_out_def intro: trans_le_add1)
  assume i: "readers_ok s"
  have n: "(if avail < n then avail else n) = min n avail" for avail :: nat by auto
  { assume r: "read_out f n s = (Data d, s')"
    then have a: "gortn_pos f s < length (g_out s)"
      by (auto simp: read_out_def Let_def gortn_pos_def split: if_splits)
    let ?o = "gortn_pos f s" and ?m = "min n (length (g_out s) - gortn_pos f s)"
    have d: "d = take ?m (drop ?o (g_out s))"
      and s': "s' = s\<lparr>g_readers := (g_readers s)(f \<mapsto> ?o + ?m)\<rparr>"
      using r a by (auto simp: read_out_def Let_def gortn_pos_def n split: if_splits)
    have "take ?m (drop ?o (g_out s)) = take n (drop ?o (g_out s))" by (simp add: min_def)
    moreover have "length d = ?m" using d by simp
    ultimately show "readers_ok s' \<and> g_out s' = g_out s \<and> d = take n (drop (gortn_pos f s) (g_out s))
        \<and> gortn_pos f s' = gortn_pos f s + length d \<and> (h \<noteq> f \<longrightarrow> gortn_pos h s' = gortn_pos h s)"
      using i a d by (auto simp: s' readers_ok_def gortn_pos_def) }
  assume "read_out f n s = (r, s')" and "r = Eof \<or> r = Wait"
  then show "s' = s \<and> gortn_pos f s = length (g_out s)"
    using i by (auto simp: read_out_def Let_def gortn_pos_def readers_ok_def split: if_splits
        intro: antisym)
qed

section \<open>Invariants\<close>

definition queues_ok :: "gortn \<Rightarrow> bool" where
  "queues_ok g \<longleftrightarrow> length (g_ctl g) \<le> 8 \<and> length (g_in g) \<le> 256"

definition unstopped :: "gortn \<Rightarrow> bool" where
  "unstopped g \<longleftrightarrow> \<not> g_closed g \<and> g_state g \<noteq> StateStopped \<and> g_phase g \<noteq> Finished"

lemma stop_agent_handling:
  assumes "stop_agent g g'" and "g_phase g = Handling c"
  shows "g_out g' = g_out g \<and> g_readers g' = g_readers g \<and> g_ctl g' = g_ctl g \<and> g_in g' = g_in g
    \<and> g_closed g' = g_closed g \<and> g_state g' = g_state g \<and> g_phase g' = g_phase g
    \<and> g_stdin g' = g_stdin g \<and> g_lost g' = g_lost g \<and> g_id g' = g_id g \<and> g_thought g' = g_thought g"
  using assms by (cases rule: stop_agent.cases) auto

lemma stop_agent_fields:
  assumes "stop_agent g g'"
  shows "g_readers g' = g_readers g \<and> g_ctl g' = g_ctl g \<and> g_in g' = g_in g
    \<and> g_id g' = g_id g \<and> g_thought g' = g_thought g \<and> (\<exists>d. g_out g' = g_out g @ d)
    \<and> (g_phase g' = g_phase g \<or> g_phase g = AtSelect \<and> g_phase g' = Finished)"
  using assms by (cases rule: stop_agent.cases) (auto simp: run_stopped_def set_state_def Let_def)

lemma exec_end_fields [simp]:
  "g_out (exec_end r g) = g_out g" "g_readers (exec_end r g) = g_readers g"
  "g_ctl (exec_end r g) = g_ctl g" "g_in (exec_end r g) = g_in g"
  "g_closed (exec_end r g) = g_closed g" "g_state (exec_end r g) = StateIdle"
  "g_phase (exec_end r g) = AtSelect" "g_stdin (exec_end r g) = g_stdin g"
  "g_lost (exec_end r g) = g_lost g"
  by (auto simp: exec_end_def set_state_def split: exec_result.split)

lemma handle_spawn_fields [simp]:
  "\<exists>d. g_out (handle_spawn i a r g) = g_out g @ d" "g_readers (handle_spawn i a r g) = g_readers g"
  "g_ctl (handle_spawn i a r g) = g_ctl g" "g_in (handle_spawn i a r g) = g_in g"
  "g_closed (handle_spawn i a r g) = g_closed g" "g_state (handle_spawn i a r g) = g_state g"
  "g_stdin (handle_spawn i a r g) = g_stdin g" "g_lost (handle_spawn i a r g) = g_lost g"
  by (auto simp: handle_spawn_def write_out_def split: option.split)

lemma pump_take_fields [simp]:
  "g_out (pump_take i g) = g_out g" "g_readers (pump_take i g) = g_readers g"
  "g_ctl (pump_take i g) = g_ctl g" "length (g_in (pump_take i g)) \<le> length (g_in g)"
  "g_closed (pump_take i g) = g_closed g" "g_state (pump_take i g) = g_state g"
  "g_phase (pump_take i g) = g_phase g"
  by (auto simp: pump_take_def split: list.split)

lemma read_out_fields:
  "read_out fid n g = (r, g') \<Longrightarrow>
   g_out g' = g_out g \<and> g_ctl g' = g_ctl g \<and> g_in g' = g_in g \<and> g_closed g' = g_closed g
   \<and> g_state g' = g_state g \<and> g_phase g' = g_phase g"
  by (auto simp: read_out_def Let_def split: if_splits)

text \<open>Each step appends to the output or leaves it alone, and keeps the invariants.\<close>

lemma gstep_out: "gstep g l g' \<Longrightarrow> \<exists>d. g_out g' = g_out g @ d"
  by (cases rule: gstep.cases, assumption)
    (auto simp: gortn_ops dest: stop_agent_handling read_out_fields stop_agent_fields split: if_splits)

lemma gstep_queues: "gstep g l g' \<Longrightarrow> queues_ok g \<Longrightarrow> queues_ok g'"
  by (cases rule: gstep.cases, assumption)
    (auto simp: queues_ok_def gortn_ops dest: stop_agent_handling read_out_fields stop_agent_fields
      intro: order_trans [OF pump_take_fields(4)] split: if_splits list.splits option.splits)

lemma gstep_unstopped: "gstep g l g' \<Longrightarrow> l \<noteq> StopSent \<Longrightarrow> unstopped g \<Longrightarrow> unstopped g'"
  by (cases rule: gstep.cases, assumption)
    (auto simp: unstopped_def gortn_ops dest: stop_agent_handling read_out_fields
      split: if_splits list.splits option.splits)


lemma gstep_readers: "gstep g l g' \<Longrightarrow> readers_ok g \<Longrightarrow> readers_ok g'"
proof -
  assume s: "gstep g l g'" and i: "readers_ok g"
  obtain d where out: "g_out g' = g_out g @ d" using gstep_out [OF s] by blast
  have keep: "g_readers g' = g_readers g \<Longrightarrow> readers_ok g'"
    using i out by (auto simp: readers_ok_def intro: trans_le_add1)
  from s show ?thesis
  proof cases
    case (s_open fid)
    then show ?thesis using out_stream.opn_keeps [OF i] by simp
  next
    case (s_clunk fid)
    then show ?thesis using out_stream.clunk_keeps [OF i] by simp
  next
    case (s_data fid n d)
    then show ?thesis using out_stream.rd_data [OF i] by blast
  next
    case (s_eof fid n)
    then show ?thesis using out_stream.rd_none [OF i] i by blast
  next
    case (s_block fid n h)
    then have "h = g" using out_stream.rd_none [OF i] by blast
    with s_block show ?thesis using keep by simp
  qed (rule keep; auto simp: gortn_ops dest: stop_agent_handling stop_agent_fields split: if_splits)+
qed

text \<open>Closed, stopped and returned are one.\<close>

definition stop_ok :: "gortn \<Rightarrow> bool" where
  "stop_ok g \<longleftrightarrow> (g_closed g \<longleftrightarrow> g_phase g = Finished) \<and> (g_closed g \<longrightarrow> g_state g = StateStopped)"

lemma gstep_stop_ok: "gstep g l g' \<Longrightarrow> stop_ok g \<Longrightarrow> stop_ok g'"
  by (cases rule: gstep.cases, assumption)
    (auto simp: stop_ok_def gortn_ops dest: stop_agent_handling read_out_fields elim!: stop_agentE
      split: if_splits list.splits option.splits)

lemma trace_unstopped: "trace g ls g' \<Longrightarrow> StopSent \<notin> set ls \<Longrightarrow> unstopped g \<Longrightarrow> unstopped g'"
  by (induction rule: steps.induct) (auto dest: gstep_unstopped)

lemma reachable_invariants: "reachable g \<Longrightarrow> readers_ok g \<and> queues_ok g \<and> stop_ok g"
proof (induction rule: reachable.induct)
  case (start gid thought)
  show ?case
    by (simp add: new_gortn_def readers_ok_def queues_ok_def stop_ok_def reader_pos_def)
next
  case (step g l g')
  then show ?case using gstep_readers gstep_queues gstep_stop_ok by blast
qed

section \<open>Properties of an agent\<close>


text \<open>An agent at its select with the given commands pending.\<close>

definition demo_agent :: gortn where
  "demo_agent = run_start (new_gortn ''a'' ''think'')"

lemma demo_reachable: "reachable demo_agent"
  unfolding demo_agent_def
  by (rule reachable.step [OF reachable.start s_run]) (simp add: new_gortn_def)

lemma ctl_parts_stop: "ctl_parts ''stop'' = (''stop'', [])" "trim_space ''stop'' = ''stop''"
proof -
  show t: "trim_space ''stop'' = ''stop''"
    by (rule trim_space_id) (simp add: untrimmed_def space_runes_def has_prefix_def char_of_def)
  show "ctl_parts ''stop'' = (''stop'', [])"
    by (simp add: ctl_parts_def t splitn2_def)
qed

lemma demo_stop:
  "trace demo_agent [CtlWrite ''stop'', TakeCtl ''stop'', DoStop] demo_agent"
proof -
  let ?g1 = "demo_agent\<lparr>g_ctl := [''stop'']\<rparr>"
  let ?g2 = "demo_agent\<lparr>g_phase := Handling ''stop''\<rparr>"
  have 1: "gstep demo_agent (CtlWrite ''stop'') ?g1"
    by (rule s_ctl) (simp add: ctl_write_def demo_agent_def new_gortn_def gortn_ops ctl_parts_stop)
  have "gstep ?g1 (TakeCtl ''stop'') (?g1\<lparr>g_ctl := [], g_phase := Handling (trim_space ''stop'')\<rparr>)"
    by (rule s_take) (simp_all add: demo_agent_def gortn_ops)
  then have 2: "gstep ?g1 (TakeCtl ''stop'') ?g2"
    by (simp add: ctl_parts_stop demo_agent_def new_gortn_def gortn_ops)
  have sa: "stop_agent ?g2 ?g2"
    by (rule given_up) (simp_all add: demo_agent_def new_gortn_def gortn_ops)
  have "gstep ?g2 DoStop (?g2\<lparr>g_phase := AtSelect\<rparr>)"
    using s_stop [OF _ _ sa, of "''stop''" "[]"] by (simp add: ctl_parts_stop)
  then have 3: "gstep ?g2 DoStop demo_agent"
    by (simp add: demo_agent_def gortn_ops)
  show ?thesis using 1 2 3 by (auto intro: steps.intros)
qed


text \<open>Claim C7. Every reader of \<open>out\<close> gets the agent's output from its first byte, each byte once
  and in order, in any interleaving of its reads with writes and with other readers that open,
  read and close; and when a read finds nothing, it has got all of it.\<close>

theorem gortn_reader_stream:
  assumes "reachable g" and "\<forall>oper \<in> set ops. \<not> touches oper fid"
    and "received open_reader write_out read_out close_reader fid ops (open_reader fid g) = (ds, g')"
  shows "ds = take (length ds) (g_out g')
    \<and> (\<forall>n r s'. read_out fid n g' = (r, s') \<longrightarrow> r = Eof \<or> r = Wait \<longrightarrow> ds = g_out g')"
proof -
  have "readers_ok g" using reachable_invariants [OF assms(1)] by simp
  then have i: "readers_ok (open_reader fid g)" using out_stream.opn_keeps by blast
  have p: "gortn_pos fid (open_reader fid g) = 0" by (simp add: gortn_pos_def open_reader_def)
  show ?thesis
    using out_stream.reader_stream [OF i assms(2)] out_stream.reader_caught_up [OF i assms(2)]
      out_stream.rd_none assms(3) p by fastforce
qed

theorem gortn_reader_stream_witness:
  "fst (received open_reader write_out read_out close_reader 1
      [OpRead 1 6, OpWrite ''hi'', OpOpen 2, OpRead 2 3, OpRead 1 100] (open_reader 1 demo_agent))
    = ''[gortns a] think'' @ ''\<newline>'' @ ''hi''"
proof -
  let ?ops = "[OpRead 1 6, OpWrite ''hi'', OpOpen 2, OpRead 2 3, OpRead 1 100]"
  let ?r = "received open_reader write_out read_out close_reader 1 ?ops (open_reader 1 demo_agent)"
  have "snd (read_out 1 1 (snd ?r)) = snd ?r \<and> fst (read_out 1 1 (snd ?r)) = Wait
      \<and> g_out (snd ?r) = ''[gortns a] think'' @ ''\<newline>'' @ ''hi''"
    by (simp add: read_out_def demo_agent_def new_gortn_def gortn_ops gortn_tag_def got_def
        reader_pos_def split_beta)
  with gortn_reader_stream [OF demo_reachable, of ?ops 1 "fst ?r" "snd ?r"] show ?thesis
    by (auto simp: prod_eq_iff)
qed


text \<open>The queues stay within their channels' capacities; a write to \<open>ctl\<close> blocks exactly
  when eight commands wait, one to \<open>in\<close> or \<open>arg\<close> never blocks but is dropped when the queue is
  full.\<close>

lemma gortn_queues_bounded:
  assumes "reachable g"
  shows "length (g_ctl g) \<le> 8 \<and> length (g_in g) \<le> 256
    \<and> (ctl_write d g = None \<longleftrightarrow> length (g_ctl g) = 8)
    \<and> (length (g_in g) = 256 \<longrightarrow> in_write d g = g)
    \<and> (length (g_ctl g) = 8 \<longrightarrow> arg_write d g = g)"
proof -
  have "length (g_ctl g) \<le> 8 \<and> length (g_in g) \<le> 256"
    using reachable_invariants [OF assms] by (simp add: queues_ok_def)
  then show ?thesis by (auto simp: ctl_write_def in_write_def arg_write_def Let_def)
qed

lemma gortn_queues_bounded_example: "ctl_write ''stop'' demo_agent \<noteq> None"
  using gortn_queues_bounded [OF demo_reachable, of "''stop''"]
  by (simp add: demo_agent_def new_gortn_def gortn_ops)

text \<open>Commands as they come through \<open>ctl\<close>.\<close>

definition cmd_ok :: "string \<Rightarrow> string \<Rightarrow> bool" where
  "cmd_ok verb arg \<longleftrightarrow> CHR '' '' \<notin> set verb \<and> trim_space (verb @ '' '' @ arg) = verb @ '' '' @ arg"

lemma ctl_parts_cmd: "cmd_ok verb arg \<Longrightarrow> ctl_parts (verb @ '' '' @ arg) = (verb, arg)"
  by (simp add: ctl_parts_def cmd_ok_def splitn2_append)

lemma command_taken:
  assumes "g_phase g = AtSelect" and "g_ctl g = []" and "cmd_ok verb arg"
  shows "trace g [CtlWrite (verb @ '' '' @ arg), TakeCtl (verb @ '' '' @ arg)]
    (g\<lparr>g_phase := Handling (verb @ '' '' @ arg)\<rparr>)"
proof -
  let ?c = "verb @ '' '' @ arg" and ?g1 = "g\<lparr>g_ctl := [verb @ '' '' @ arg]\<rparr>"
  have t: "trim_space ?c = ?c" using assms(3) by (simp add: cmd_ok_def)
  have 1: "gstep g (CtlWrite ?c) ?g1"
    by (rule s_ctl) (simp add: ctl_write_def assms(2) t [simplified])
  have "gstep ?g1 (TakeCtl ?c) (?g1\<lparr>g_ctl := [], g_phase := Handling (trim_space ?c)\<rparr>)"
    by (rule s_take) (simp_all add: assms(1))
  then have 2: "gstep ?g1 (TakeCtl ?c) (g\<lparr>g_phase := Handling ?c\<rparr>)"
    using assms(2) t by (cases g) simp
  show ?thesis using 1 2 by (auto intro: steps.intros)
qed

text \<open>The command \<open>echo text\<close> written to \<open>ctl\<close> of a waiting agent appends \<open>text\<close> and a
  newline to its output, and \<open>exec cmd\<close> starts the command with the line \<open>$ cmd\<close> in the output
  and in the status.\<close>

lemma gortn_commands:
  assumes "g_phase g = AtSelect" and "g_ctl g = []"
  shows "(cmd_ok ''echo'' arg \<longrightarrow>
      (\<exists>g'. trace g [CtlWrite (''echo '' @ arg), TakeCtl (''echo '' @ arg), DoEcho arg] g'
         \<and> g_out g' = g_out g @ arg @ ''\<newline>'' \<and> g_phase g' = AtSelect))
    \<and> (cmd_ok ''exec'' arg \<longrightarrow>
      (\<exists>g'. trace g [CtlWrite (''exec '' @ arg), TakeCtl (''exec '' @ arg), ExecStart arg] g'
         \<and> g_out g' = g_out g @ ''$ '' @ arg @ ''\<newline>'' \<and> g_phase g' = Execing (length (g_pumps g))
         \<and> status_line g' = ''running exec: '' @ arg @ ''\<newline>''))"
proof (intro conjI impI)
  assume ok: "cmd_ok ''echo'' arg"
  let ?h = "g\<lparr>g_phase := Handling (''echo'' @ '' '' @ arg)\<rparr>"
  have "gstep ?h (DoEcho arg) ((handle_echo arg ?h)\<lparr>g_phase := AtSelect\<rparr>)"
    using s_echo [of ?h, OF _ ctl_parts_cmd [OF ok]] by simp
  with steps_snoc [OF command_taken [OF assms ok]] show
    "\<exists>g'. trace g [CtlWrite (''echo '' @ arg), TakeCtl (''echo '' @ arg), DoEcho arg] g'
       \<and> g_out g' = g_out g @ arg @ ''\<newline>'' \<and> g_phase g' = AtSelect"
    by (fastforce simp: handle_echo_def write_out_def)
next
  assume ok: "cmd_ok ''exec'' arg"
  let ?h = "g\<lparr>g_phase := Handling (''exec'' @ '' '' @ arg)\<rparr>"
  have "gstep ?h (ExecStart arg) (exec_begin arg ?h)"
    using s_exec [of ?h, OF _ ctl_parts_cmd [OF ok]] by simp
  with steps_snoc [OF command_taken [OF assms ok]] show
    "\<exists>g'. trace g [CtlWrite (''exec '' @ arg), TakeCtl (''exec '' @ arg), ExecStart arg] g'
       \<and> g_out g' = g_out g @ ''$ '' @ arg @ ''\<newline>'' \<and> g_phase g' = Execing (length (g_pumps g))
       \<and> status_line g' = ''running exec: '' @ arg @ ''\<newline>''"
    by (fastforce simp: exec_begin_def write_out_def set_state_def status_line_def Let_def)
qed

lemma demo_cmds: "cmd_ok ''echo'' ''hi''" "cmd_ok ''exec'' ''cat''"
proof -
  have "trim_space ''echo hi'' = ''echo hi''" "trim_space ''exec cat'' = ''exec cat''"
    by (rule trim_space_id; simp add: untrimmed_def space_runes_def has_prefix_def char_of_def)+
  then show "cmd_ok ''echo'' ''hi''" "cmd_ok ''exec'' ''cat''" by (simp_all add: cmd_ok_def)
qed

lemma gortn_commands_example:
  "\<exists>g'. trace demo_agent [CtlWrite ''echo hi'', TakeCtl ''echo hi'', DoEcho ''hi''] g'
     \<and> g_out g' = g_out demo_agent @ ''hi'' @ ''\<newline>''"
  using gortn_commands [of demo_agent "''hi''"] demo_cmds(1)
  by (auto simp: demo_agent_def new_gortn_def gortn_ops)

text \<open>What the run goroutine does by itself, and how much of it is left to do: two steps for a queued
  command (taking it, handling it), and the rest of the current one. The end of an executed
  command is not its own.\<close>

fun own_step :: "glabel \<Rightarrow> bool" where
  "own_step Run \<longleftrightarrow> True"
| "own_step (TakeCtl c) \<longleftrightarrow> True"
| "own_step (DoEcho a) \<longleftrightarrow> True"
| "own_step (DoUnknown v) \<longleftrightarrow> True"
| "own_step (DoSpawn i a r) \<longleftrightarrow> True"
| "own_step DoStop \<longleftrightarrow> True"
| "own_step (ExecStart a) \<longleftrightarrow> True"
| "own_step _ \<longleftrightarrow> False"

fun phase_work :: "phase \<Rightarrow> nat" where
  "phase_work (Handling c) = 1"
| "phase_work Starting = 1"
| "phase_work _ = 0"

definition work :: "gortn \<Rightarrow> nat" where
  "work g = 2 * length (g_ctl g) + phase_work (g_phase g)"

lemma own_step_work: "gstep g l g' \<Longrightarrow> own_step l \<Longrightarrow> work g' < work g"
  by (cases l; simp; erule gstepE; simp?)
    (auto simp: work_def gortn_ops handle_spawn_def split: option.splits elim!: stop_agentE)

lemma stop_agent_total: "g_phase g \<noteq> AtSelect \<Longrightarrow> \<exists>g'. stop_agent g g'"
  by (metis given_up in_set_conv_nth to_pump to_reader equals0I)

lemma handling_moves:
  assumes "g_phase g = Handling c"
  shows "\<exists>l g'. own_step l \<and> gstep g l g'"
proof -
  obtain verb arg where c: "ctl_parts c = (verb, arg)" by fastforce
  consider "verb = ''echo''" | "verb = ''exec''" | "verb = ''spawn''" | "verb = ''stop''"
    | "verb \<notin> {''echo'', ''exec'', ''spawn'', ''stop''}"
    by blast
  then show ?thesis
  proof cases
    case 1
    then show ?thesis using s_echo [OF assms] c own_step.simps(3) by blast
  next
    case 2
    then show ?thesis using s_exec [OF assms] c own_step.simps(7) by blast
  next
    case 3
    then show ?thesis using s_spawn [OF assms] c own_step.simps(5) by blast
  next
    case 4
    then show ?thesis using s_stop [OF assms] stop_agent_total [of g] assms c own_step.simps(6)
      by (metis phase.distinct(9))
  next
    case 5
    then show ?thesis using s_unknown [OF assms c] own_step.simps(4) by blast
  qed
qed

text \<open>It rests when it waits for a command, for the end of an executed one, or has returned.\<close>

definition at_rest :: "gortn \<Rightarrow> bool" where
  "at_rest g \<longleftrightarrow> g_phase g = AtSelect \<and> g_ctl g = [] \<or> (\<exists>i. g_phase g = Execing i) \<or> g_phase g = Finished"

lemma agent_moves:
  assumes "\<not> at_rest g"
  shows "\<exists>l g'. own_step l \<and> gstep g l g'"
proof (cases "g_phase g")
  case Starting
  then show ?thesis using s_run own_step.simps(1) by blast
next
  case AtSelect
  then obtain c cs where "g_ctl g = c # cs" using assms by (cases "g_ctl g") (auto simp: at_rest_def)
  with AtSelect show ?thesis using s_take own_step.simps(2) by blast
next
  case (Handling c)
  then show ?thesis by (rule handling_moves)
qed (use assms in \<open>auto simp: at_rest_def\<close>)

lemma own_at_rest: "at_rest g \<Longrightarrow> gstep g l g' \<Longrightarrow> \<not> own_step l"
  by (erule gstepE) (auto simp: at_rest_def)

interpretation agent_worker: worker gstep own_step work "\<lambda>g. True" at_rest
  by unfold_locales (simp, erule own_step_work, assumption, erule agent_moves, erule own_at_rest, assumption)

text \<open>The books of a run: the commands that were queued, those that were taken, the steps that answer
  one, the text each step writes, and the command that is being handled.\<close>

fun queued :: "glabel \<Rightarrow> string list" where
  "queued (CtlWrite d) = [trim_space d]"
| "queued (ArgWrite d) = [''exec '' @ trim_space d]"
| "queued _ = []"

fun taken :: "glabel \<Rightarrow> string list" where
  "taken (TakeCtl c) = [c]"
| "taken _ = []"

fun is_answer :: "glabel \<Rightarrow> bool" where
  "is_answer (DoEcho a) \<longleftrightarrow> True"
| "is_answer (DoUnknown v) \<longleftrightarrow> True"
| "is_answer (DoSpawn i a r) \<longleftrightarrow> True"
| "is_answer DoStop \<longleftrightarrow> True"
| "is_answer (ExecStart a) \<longleftrightarrow> True"
| "is_answer _ \<longleftrightarrow> False"

fun answers_cmd :: "string \<Rightarrow> glabel \<Rightarrow> bool" where
  "answers_cmd c (DoEcho a) \<longleftrightarrow> ctl_parts c = (''echo'', a)"
| "answers_cmd c (ExecStart a) \<longleftrightarrow> ctl_parts c = (''exec'', a)"
| "answers_cmd c (DoSpawn i a r) \<longleftrightarrow> ctl_parts c = (''spawn'', a)"
| "answers_cmd c DoStop \<longleftrightarrow> fst (ctl_parts c) = ''stop''"
| "answers_cmd c (DoUnknown v) \<longleftrightarrow>
     fst (ctl_parts c) = v \<and> v \<notin> {''echo'', ''exec'', ''spawn'', ''stop''}"
| "answers_cmd c _ \<longleftrightarrow> False"

fun label_text :: "string \<Rightarrow> string \<Rightarrow> glabel \<Rightarrow> string" where
  "label_text gid th Run = ''[gortns '' @ gid @ ''] '' @ th @ ''\<newline>''"
| "label_text gid th (DoEcho a) = a @ ''\<newline>''"
| "label_text gid th (ExecStart a) = ''$ '' @ a @ ''\<newline>''"
| "label_text gid th (ExecOutput d) = d"
| "label_text gid th (DoUnknown v) = ''[gortns '' @ gid @ ''] unknown cmd: '' @ v @ ''\<newline>''"
| "label_text gid th (DoSpawn i a None) = ''[gortns '' @ gid @ ''] spawned '' @ i @ '': '' @ a @ ''\<newline>''"
| "label_text gid th (DoSpawn i a (Some e)) = ''[gortns '' @ gid @ ''] spawn error: '' @ e @ ''\<newline>''"
| "label_text gid th _ = []"

fun handled_cmd :: "phase \<Rightarrow> string list" where
  "handled_cmd (Handling c) = [c]"
| "handled_cmd _ = []"

lemma gstep_queue:
  "gstep g l g' \<Longrightarrow> g_ctl g @ queued l = taken l @ g_ctl g' \<and> g_id g' = g_id g \<and> g_thought g' = g_thought g"
  by (erule gstepE)
    (auto simp: gortn_ops exec_end_def handle_spawn_def pump_take_def read_out_def
      dest: stop_agent_fields split: if_splits option.splits list.splits exec_result.splits)

lemma gstep_text:
  "gstep g l g' \<Longrightarrow> l \<noteq> StopSent \<Longrightarrow> g_out g' = g_out g @ label_text (g_id g) (g_thought g) l"
  by (erule gstepE)
    (auto simp: gortn_ops gortn_tag_def handle_spawn_def read_out_def dest: stop_agent_handling
      split: if_splits option.splits)

lemma gstep_phase:
  "gstep g l g' \<Longrightarrow>
   (if is_answer l then \<exists>c. handled_cmd (g_phase g) = [c] \<and> answers_cmd c l \<and> taken l = []
      \<and> handled_cmd (g_phase g') = []
    else handled_cmd (g_phase g) @ map trim_space (taken l) = handled_cmd (g_phase g'))"
  by (erule gstepE)
    (auto simp: gortn_ops exec_end_def dest: read_out_fields stop_agent_fields
      split: if_splits exec_result.splits)

lemma trace_books:
  assumes "trace g ls g'"
  shows "g_ctl g @ concat (map queued ls) = concat (map taken ls) @ g_ctl g'
    \<and> g_id g' = g_id g \<and> g_thought g' = g_thought g
    \<and> (StopSent \<notin> set ls \<longrightarrow> g_out g' = g_out g @ concat (map (label_text (g_id g) (g_thought g)) ls))
    \<and> (\<exists>answered. handled_cmd (g_phase g) @ map trim_space (concat (map taken ls))
          = answered @ handled_cmd (g_phase g') \<and> list_all2 answers_cmd answered (filter is_answer ls))"
  using assms
proof (induction rule: steps.induct)
  case (steps_nil g)
  then show ?case by simp
next
  case (steps_cons g l g1 ls g')
  note b = gstep_queue [OF steps_cons.hyps(1), THEN conjunct1]
    gstep_queue [OF steps_cons.hyps(1), THEN conjunct2, THEN conjunct1]
    gstep_queue [OF steps_cons.hyps(1), THEN conjunct2, THEN conjunct2]
    gstep_text [OF steps_cons.hyps(1)] gstep_phase [OF steps_cons.hyps(1)]
  obtain cs where cs: "handled_cmd (g_phase g1) @ map trim_space (concat (map taken ls))
      = cs @ handled_cmd (g_phase g')" "list_all2 answers_cmd cs (filter is_answer ls)"
    using steps_cons.IH by blast
  have e: "\<exists>ds. handled_cmd (g_phase g) @ map trim_space (concat (map taken (l # ls)))
      = ds @ handled_cmd (g_phase g') \<and> list_all2 answers_cmd ds (filter is_answer (l # ls))"
  proof (cases "is_answer l")
    case True
    then obtain c where "handled_cmd (g_phase g) = [c]" "answers_cmd c l" "taken l = []"
      "handled_cmd (g_phase g1) = []"
      using b(5) by auto
    then show ?thesis using True cs by (intro exI [of _ "c # cs"]) simp
  next
    case False
    then have "handled_cmd (g_phase g) @ map trim_space (taken l) = handled_cmd (g_phase g1)"
      using b(5) by simp
    then show ?thesis using False cs by (intro exI [of _ cs]) (simp add: append.assoc [symmetric])
  qed
  have q: "g_ctl g @ concat (map queued (l # ls)) = concat (map taken (l # ls)) @ g_ctl g'"
  proof -
    have q1: "g_ctl g1 @ concat (map queued ls) = concat (map taken ls) @ g_ctl g'"
      using steps_cons.IH by blast
    have "g_ctl g @ concat (map queued (l # ls)) = (taken l @ g_ctl g1) @ concat (map queued ls)"
      by (simp only: list.map concat.simps append.assoc [symmetric] b(1))
    also have "\<dots> = taken l @ concat (map taken ls) @ g_ctl g'"
      by (simp only: append.assoc q1)
    finally show ?thesis by (simp only: list.map concat.simps append.assoc)
  qed
  have i: "g_id g' = g_id g" "g_thought g' = g_thought g" using b(2,3) steps_cons.IH by simp_all
  have o: "g_out g' = g_out g @ concat (map (label_text (g_id g) (g_thought g)) (l # ls))"
    if "StopSent \<notin> set (l # ls)"
  proof -
    have "g_out g' = g_out g1 @ concat (map (label_text (g_id g1) (g_thought g1)) ls)"
      using that steps_cons.IH by simp
    moreover have "g_out g1 = g_out g @ label_text (g_id g) (g_thought g) l" using that b(4) by auto
    ultimately show ?thesis using b(2,3) by simp
  qed
  show ?case
    by (intro conjI impI) (rule q, rule i(1), rule i(2), erule o, rule e)
qed

text \<open>Claim C13. An agent answers its commands. In every run, whatever else happens: the commands
  taken off the queue are the queued ones in their order, none lost or made up; each one taken is
  answered, in order, by the step its verb asks for (the text echoed, the command started, the
  spawn reported, \<open>stop\<close> sent, or the verb reported as unknown), except for the last one while it
  is being handled; and, with no stop from outside, the output is what it was and the text of each
  step in order. By itself the run goroutine takes at most two steps for a queued command, and one
  more; it can stop only at its select with an empty queue, waiting for an executed command to
  end, or after a stop; and it can always go on to such a point.\<close>

theorem gortn_answers_all:
  assumes "trace g ls g'"
  shows "g_ctl g @ concat (map queued ls) = concat (map taken ls) @ g_ctl g'
    \<and> (\<exists>answered. handled_cmd (g_phase g) @ map trim_space (concat (map taken ls))
          = answered @ handled_cmd (g_phase g') \<and> list_all2 answers_cmd answered (filter is_answer ls))
    \<and> (StopSent \<notin> set ls \<longrightarrow> g_out g' = g_out g @ concat (map (label_text (g_id g) (g_thought g)) ls))
    \<and> (list_all own_step ls \<longrightarrow> length ls \<le> 2 * length (g_ctl g) + 1)
    \<and> ((\<nexists>l g''. own_step l \<and> gstep g' l g'') \<longleftrightarrow>
        g_phase g' = AtSelect \<and> g_ctl g' = [] \<or> (\<exists>i. g_phase g' = Execing i) \<or> g_phase g' = Finished)
    \<and> (\<exists>ms g''. trace g' ms g'' \<and> list_all own_step ms
        \<and> (g_phase g'' = AtSelect \<and> g_ctl g'' = [] \<or> (\<exists>i. g_phase g'' = Execing i) \<or> g_phase g'' = Finished))"
proof -
  have "phase_work (g_phase g) \<le> 1" by (cases "g_phase g") simp_all
  then have "list_all own_step ls \<Longrightarrow> length ls \<le> 2 * length (g_ctl g) + 1"
    using agent_worker.own_bounded [OF assms] by (simp add: work_def)
  moreover have "(\<nexists>l g''. own_step l \<and> gstep g' l g'') \<longleftrightarrow> at_rest g'"
    by (rule agent_worker.stuck_iff) simp
  moreover have "\<exists>ms g''. trace g' ms g'' \<and> list_all own_step ms \<and> at_rest g''"
    by (rule agent_worker.comes_to_rest) simp
  ultimately show ?thesis using trace_books [OF assms] unfolding at_rest_def by blast
qed

theorem gortn_answers_all_witness:
  "\<exists>g g'. g_ctl g = [''echo hi''] \<and> trace g [TakeCtl ''echo hi'', DoEcho ''hi''] g'
     \<and> g_ctl g' = [] \<and> g_out g' = g_out g @ ''hi'' @ ''\<newline>''
     \<and> (\<nexists>l g''. own_step l \<and> gstep g' l g'')"
proof -
  have d: "g_phase demo_agent = AtSelect" "g_ctl demo_agent = []"
    by (simp_all add: demo_agent_def new_gortn_def gortn_ops)
  have t: "trim_space ''echo hi'' = ''echo hi''" using demo_cmds(1) by (simp add: cmd_ok_def)
  let ?g = "demo_agent\<lparr>g_ctl := [''echo hi'']\<rparr>"
  let ?h = "?g\<lparr>g_ctl := [], g_phase := Handling ''echo hi''\<rparr>"
  let ?e = "(handle_echo ''hi'' ?h)\<lparr>g_phase := AtSelect\<rparr>"
  have 1: "gstep ?g (TakeCtl ''echo hi'') ?h"
    using s_take [of ?g "''echo hi''" "[]"] d t by simp
  have "ctl_parts ''echo hi'' = (''echo'', ''hi'')" using ctl_parts_cmd [OF demo_cmds(1)] by simp
  then have 2: "gstep ?h (DoEcho ''hi'') ?e" by (intro s_echo) auto
  have t2: "trace ?g [TakeCtl ''echo hi'', DoEcho ''hi''] ?e" using 1 2 by (blast intro: steps.intros)
  have "g_phase ?e = AtSelect" by simp
  then have "g_ctl ?e = [] \<and> g_out ?e = g_out ?g @ ''hi'' @ ''\<newline>''
      \<and> (\<nexists>l g''. own_step l \<and> gstep ?e l g'')"
    using gortn_answers_all [OF t2] by simp
  with t2 show ?thesis by (intro exI [of _ ?g] exI [of _ ?e]) simp
qed

text \<open>The pump of a command outlives it and goes on taking input: while a later command
  runs, data written to \<open>in\<close> can go to the pump of an ended one, and is lost.\<close>

lemma gortn_input_stolen:
  assumes "reachable g" and "g_phase g = Execing i"
    and "j < length (g_pumps g)" and "g_pumps g ! j" and "j \<noteq> i" and "g_in g = d # ds"
  shows "\<exists>g'. gstep g (Pump j) g' \<and> reachable g' \<and> g_phase g' = Execing i
    \<and> g_in g' = ds \<and> g_stdin g' = g_stdin g \<and> g_lost g' = g_lost g @ [d]"
proof -
  have "gstep g (Pump j) (pump_take j g)" using assms by (intro s_pump) simp_all
  moreover have "g_in (pump_take j g) = ds" "g_stdin (pump_take j g) = g_stdin g"
    "g_lost (pump_take j g) = g_lost g @ [d]" "g_phase (pump_take j g) = Execing i"
    using assms by (simp_all add: pump_take_def)
  ultimately show ?thesis using reachable.step [OF assms(1)] by blast
qed

lemma demo_second_exec:
  "\<exists>g. reachable g \<and> g_phase g = Execing 1 \<and> g_pumps g = [True, True] \<and> g_in g = [''data'']"
proof -
  have d: "g_phase demo_agent = AtSelect" "g_ctl demo_agent = []" "g_pumps demo_agent = []"
    "g_in demo_agent = []"
    by (simp_all add: demo_agent_def new_gortn_def gortn_ops)
  let ?h = "\<lambda>g. g\<lparr>g_phase := Handling (''exec'' @ '' '' @ ''cat'')\<rparr>"
  have exec: "reachable (exec_begin ''cat'' (?h g))"
    if "reachable g" "g_phase g = AtSelect" "g_ctl g = []" for g
  proof (rule reachable.step)
    show "reachable (?h g)"
      using trace_reachable [OF command_taken [OF that(2,3) demo_cmds(2)] that(1)] .
    show "gstep (?h g) (ExecStart ''cat'') (exec_begin ''cat'' (?h g))"
      using s_exec [of "?h g", OF _ ctl_parts_cmd [OF demo_cmds(2)]] by simp
  qed
  let ?g1 = "exec_begin ''cat'' (?h demo_agent)"
  let ?g2 = "exec_end (Exited 0) ?g1"
  let ?g3 = "in_write ''data'' (exec_begin ''cat'' (?h ?g2))"
  have "reachable ?g1" by (rule exec [OF demo_reachable d(1,2)])
  then have "reachable ?g2"
    by (rule reachable.step) (rule s_end [where i = 0], simp add: exec_begin_def gortn_ops d)
  then have "reachable (exec_begin ''cat'' (?h ?g2))"
    by (rule exec) (simp_all add: exec_begin_def gortn_ops d)
  then have "reachable ?g3" by (rule reachable.step) (rule s_in)
  moreover have "g_phase ?g3 = Execing 1" "g_pumps ?g3 = [True, True]" "g_in ?g3 = [''data'']"
    by (simp_all add: exec_begin_def exec_end_def gortn_ops d)
  ultimately show ?thesis by blast
qed

lemma gortn_input_stolen_example:
  "\<exists>g g'. gstep g (Pump 0) g' \<and> g_phase g' = Execing 1 \<and> g_stdin g' = g_stdin g
     \<and> g_lost g' = g_lost g @ [''data'']"
proof -
  obtain g where g: "reachable g" "g_phase g = Execing 1" "g_pumps g = [True, True]"
    "g_in g = [''data'']"
    using demo_second_exec by blast
  with gortn_input_stolen [of g 1 0 "''data''" "[]"] show ?thesis by auto
qed

text \<open>Reading \<open>status\<close> from the start gives the line with the state and its detail, and no
  9P read of it panics; \<open>arg\<close> can be written but never read back.\<close>

lemma gortn_status_file:
  assumes "length (status_line g) < 2 ^ 63" and "\<forall>c \<in> set cs. unat c < 2 ^ 32"
    and "length (status_line g) \<le> sum_list (map unat cs)"
  shows "seq_reads (status_read g) 0 cs = status_line g
    \<and> (\<forall>off c. unat c < 2 ^ 32 \<longrightarrow> status_read g off c \<noteq> Panic)
    \<and> arg_read (arg_write d g) 0 c = Inl EOF"
proof -
  have "status_read g = read_window EOF (status_line g)" by (simp add: fun_eq_iff status_read_def)
  then have "offset_file (status_read g) (status_line g)"
    using assms(1) by (simp add: offset_file_window fits_def)
  from offset_file.seq_reads_all [OF this assms(2,3)] offset_file.no_panic [OF this] show ?thesis
    by (auto simp: arg_read_def)
qed

lemma gortn_status_file_example:
  "seq_reads (status_read demo_agent) 0 [10, 100] = ''running agent loop started'' @ ''\<newline>''"
  using gortn_status_file [of demo_agent "[10, 100]"]
  by (simp add: status_line_def demo_agent_def new_gortn_def gortn_ops)


section \<open>The manager\<close>

text \<open>
  \<open>GortnManager\<close>: the map of agents and the directory tree it builds. The tree itself is kept by
  the 9P library; the model has the calls made on it, and \<open>listed\<close> is what those calls leave in
  \<open>/gortns\<close>: a name that is taken keeps what it has (the code drops the error of \<open>AddChild\<close>), and a
  deletion takes whatever has the name. \<open>AddFile\<close> adds to the directory made last, which the
  tree may have refused. \<open>gm_stops\<close> lists the agents that were signalled: each entry is a step
  \<open>StopSent\<close> of that agent.
\<close>

datatype dir_call = AddBaseFile string | AddDir string | AddFile string string | DelDir string

record manager =
  gm_agents :: "string \<rightharpoonup> gortn"
  gm_calls :: "dir_call list"
  gm_stops :: "string list"

definition new_manager :: manager where
  "new_manager = \<lparr>gm_agents = Map.empty, gm_calls = [AddBaseFile ''ctl''], gm_stops = []\<rparr>"

definition agent_files :: "string list" where
  "agent_files = [''status'', ''ctl'', ''in'', ''out'', ''arg'']"

definition spawn :: "string \<Rightarrow> string \<Rightarrow> manager \<Rightarrow> string option \<times> manager" where
  "spawn gid thought gm =
     (if gm_agents gm gid \<noteq> None then (Some (''agent '' @ gid @ '' already exists''), gm)
      else (None, gm\<lparr>gm_agents := (gm_agents gm)(gid \<mapsto> new_gortn gid thought),
                     gm_calls := gm_calls gm @ AddDir gid # map (AddFile gid) agent_files\<rparr>))"

text \<open>\<open>Remove\<close> signals the agent, forgets it and deletes its directory; what the signal does to the
  forgotten agent is \<open>stop_agent\<close>.\<close>

definition remove_agent :: "string \<Rightarrow> manager \<Rightarrow> string option \<times> manager" where
  "remove_agent gid gm =
     (if gm_agents gm gid = None then (Some (''agent '' @ gid @ '' not found''), gm)
      else (None, gm\<lparr>gm_agents := (gm_agents gm)(gid := None),
                     gm_calls := gm_calls gm @ [DelDir gid], gm_stops := gm_stops gm @ [gid]\<rparr>))"

text \<open>A write to \<open>/gortns/ctl\<close> at the time \<open>now\<close>: the error of \<open>Spawn\<close>, or the length written.\<close>

definition dir_ctl_write :: "nat \<Rightarrow> string \<Rightarrow> manager \<Rightarrow> (string + nat) \<times> manager" where
  "dir_ctl_write now d gm =
     (let cmd = trim_space d in
      if has_prefix ''spawn '' cmd then
        (case spawn (''t'' @ itoa_nat now) (trim_prefix ''spawn '' cmd) gm of
           (Some e, gm') \<Rightarrow> (Inl e, gm')
         | (None, gm') \<Rightarrow> (Inr (length d), gm'))
      else (Inr (length d), gm))"

text \<open>The entries of \<open>/gortns\<close> after a sequence of calls; the flag says that the directory made last
  is in the tree.\<close>

datatype entry = FileE | DirE "string list"

fun listed :: "dir_call list \<Rightarrow> (string \<rightharpoonup> entry) \<times> bool \<Rightarrow> (string \<rightharpoonup> entry) \<times> bool" where
  "listed [] t = t"
| "listed (AddBaseFile f # cs) (m, att) =
     listed cs (if m f = None then m(f \<mapsto> FileE) else m, att)"
| "listed (AddDir d # cs) (m, att) =
     listed cs (if m d = None then (m(d \<mapsto> DirE []), True) else (m, False))"
| "listed (AddFile d f # cs) (m, att) =
     listed cs (case m d of
         Some (DirE fs) \<Rightarrow> (if att then m(d \<mapsto> DirE (fs @ [f])) else m)
       | _ \<Rightarrow> m, att)"
| "listed (DelDir d # cs) (m, att) = listed cs (m(d := None), False)"

definition gm_tree :: "manager \<Rightarrow> string \<rightharpoonup> entry" where
  "gm_tree gm = fst (listed (gm_calls gm) (Map.empty, False))"

definition tree_ok :: "manager \<Rightarrow> bool" where
  "tree_ok gm \<longleftrightarrow> (\<forall>d. d \<noteq> ''ctl'' \<longrightarrow>
     gm_tree gm d = (if gm_agents gm d = None then None else Some (DirE agent_files)))"

definition ctl_ok :: "manager \<Rightarrow> bool" where
  "ctl_ok gm \<longleftrightarrow> gm_agents gm ''ctl'' = None \<and> gm_tree gm ''ctl'' = Some FileE"

datatype gm_op = OpSpawn string string | OpRemove string | OpDirCtl nat string

fun gm_apply :: "gm_op \<Rightarrow> manager \<Rightarrow> manager" where
  "gm_apply (OpSpawn i t) gm = snd (spawn i t gm)"
| "gm_apply (OpRemove i) gm = snd (remove_agent i gm)"
| "gm_apply (OpDirCtl n d) gm = snd (dir_ctl_write n d gm)"

lemma listed_append: "listed (cs @ ds) t = listed ds (listed cs t)"
  by (induction cs t rule: listed.induct) auto

text \<open>What a spawn and a removal leave.\<close>

lemma listed_spawn:
  "fst (listed (AddDir gid # map (AddFile gid) agent_files) (m, att)) =
     (if m gid = None then m(gid \<mapsto> DirE agent_files) else m)"
  by (simp add: agent_files_def split: option.split entry.split)

lemma gm_tree_ops:
  "gm_agents gm gid = None \<Longrightarrow> gm_tree (snd (spawn gid th gm)) =
     (if gm_tree gm gid = None then (gm_tree gm)(gid \<mapsto> DirE agent_files) else gm_tree gm)"
  "gm_agents gm gid \<noteq> None \<Longrightarrow> gm_tree (snd (remove_agent gid gm)) = (gm_tree gm)(gid := None)"
proof -
  obtain m att where l: "listed (gm_calls gm) (Map.empty, False) = (m, att)" by fastforce
  show "gm_agents gm gid = None \<Longrightarrow> gm_tree (snd (spawn gid th gm)) =
     (if gm_tree gm gid = None then (gm_tree gm)(gid \<mapsto> DirE agent_files) else gm_tree gm)"
    using l listed_spawn [of gid m att] by (simp add: spawn_def gm_tree_def listed_append)
  show "gm_agents gm gid \<noteq> None \<Longrightarrow> gm_tree (snd (remove_agent gid gm)) = (gm_tree gm)(gid := None)"
    using l by (auto simp: remove_agent_def gm_tree_def listed_append)
qed

lemma dir_ctl_write_manager:
  "snd (dir_ctl_write n d gm) =
     (if has_prefix ''spawn '' (trim_space d)
      then snd (spawn (''t'' @ itoa_nat n) (trim_prefix ''spawn '' (trim_space d)) gm) else gm)"
  by (simp add: dir_ctl_write_def Let_def split: prod.split option.split)

lemma spawn_remove_cases:
  "gm_agents gm gid \<noteq> None \<Longrightarrow> snd (spawn gid th gm) = gm"
  "gm_agents gm gid = None \<Longrightarrow> gm_agents (snd (spawn gid th gm)) = (gm_agents gm)(gid \<mapsto> new_gortn gid th)"
  "gm_agents gm gid = None \<Longrightarrow> snd (remove_agent gid gm) = gm"
  "gm_agents gm gid \<noteq> None \<Longrightarrow> gm_agents (snd (remove_agent gid gm)) = (gm_agents gm)(gid := None)"
  "gm_agents gm gid \<noteq> None \<Longrightarrow> gm_stops (snd (remove_agent gid gm)) = gm_stops gm @ [gid]"
  by (auto simp: spawn_def remove_agent_def)

lemma tree_ok_ops:
  assumes "tree_ok gm"
  shows "tree_ok (snd (spawn i th gm))" and "tree_ok (snd (remove_agent i gm))"
proof -
  show "tree_ok (snd (spawn i th gm))"
    using assms spawn_remove_cases(1,2) [of gm i th] gm_tree_ops(1) [of gm i th]
    by (cases "gm_agents gm i = None") (auto simp: tree_ok_def)
  show "tree_ok (snd (remove_agent i gm))"
    using assms spawn_remove_cases(3,4) [of gm i] gm_tree_ops(2) [of gm i]
    by (cases "gm_agents gm i = None") (auto simp: tree_ok_def)
qed

lemma ctl_ok_ops:
  assumes "ctl_ok gm"
  shows "i \<noteq> ''ctl'' \<Longrightarrow> ctl_ok (snd (spawn i th gm))" and "ctl_ok (snd (remove_agent i gm))"
proof -
  show "ctl_ok (snd (spawn i th gm))" if "i \<noteq> ''ctl''"
    using assms that spawn_remove_cases(1,2) [of gm i th] gm_tree_ops(1) [of gm i th]
    by (cases "gm_agents gm i = None") (auto simp: ctl_ok_def)
  show "ctl_ok (snd (remove_agent i gm))"
    using assms spawn_remove_cases(3,4) [of gm i] gm_tree_ops(2) [of gm i]
    by (cases "gm_agents gm i = None"; cases "i = ''ctl''") (auto simp: ctl_ok_def)
qed

lemma manager_keeps:
  "tree_ok (fold gm_apply ops new_manager)"
  "(\<forall>th. OpSpawn ''ctl'' th \<notin> set ops) \<Longrightarrow> ctl_ok (fold gm_apply ops new_manager)"
proof -
  have "tree_ok gm \<Longrightarrow> tree_ok (gm_apply oper gm)" for oper gm
    using tree_ok_ops by (cases oper) (auto simp: dir_ctl_write_manager)
  then have "tree_ok gm \<Longrightarrow> tree_ok (fold gm_apply ops gm)" for gm
    by (induction ops arbitrary: gm) auto
  moreover have "tree_ok new_manager" "ctl_ok new_manager"
    by (simp_all add: tree_ok_def ctl_ok_def gm_tree_def new_manager_def)
  moreover have c: "(\<forall>th. oper \<noteq> OpSpawn ''ctl'' th) \<Longrightarrow> ctl_ok gm \<Longrightarrow> ctl_ok (gm_apply oper gm)" for oper gm
    using ctl_ok_ops by (cases oper) (auto simp: dir_ctl_write_manager)
  have "(\<forall>th. OpSpawn ''ctl'' th \<notin> set ops) \<Longrightarrow> ctl_ok gm \<Longrightarrow> ctl_ok (fold gm_apply ops gm)" for gm
  proof (induction ops arbitrary: gm)
    case (Cons oper ops)
    then have "ctl_ok (gm_apply oper gm)" by (intro c) auto
    with Cons show ?case by simp
  qed simp
  ultimately show "tree_ok (fold gm_apply ops new_manager)"
    "(\<forall>th. OpSpawn ''ctl'' th \<notin> set ops) \<Longrightarrow> ctl_ok (fold gm_apply ops new_manager)" by blast+
qed

text \<open>Claim C28. The directory tree follows the map of agents: after any sequence of spawns,
  removals and writes to \<open>/gortns/ctl\<close>, a name other than \<open>ctl\<close> is in \<open>/gortns\<close> exactly when it
  is the id of a live agent, as a directory with its five files. The name \<open>ctl\<close> is the file that
  spawns agents, as long as nobody calls \<open>Spawn\<close> with that id (the ids the program makes itself are
  never \<open>ctl\<close>); when somebody does, the agent is accepted but gets no directory. Removing an agent
  signals it once, takes it from the map and its name from the tree.\<close>

theorem manager_tree:
  assumes "gm = fold gm_apply ops new_manager"
  shows "(d \<noteq> ''ctl'' \<longrightarrow>
      gm_tree gm d = (if gm_agents gm d = None then None else Some (DirE agent_files)))
    \<and> ((\<forall>th. OpSpawn ''ctl'' th \<notin> set ops) \<longrightarrow> gm_tree gm ''ctl'' = Some FileE
        \<and> fst (spawn ''ctl'' th gm) = None
        \<and> gm_agents (snd (spawn ''ctl'' th gm)) ''ctl'' = Some (new_gortn ''ctl'' th)
        \<and> gm_tree (snd (spawn ''ctl'' th gm)) = gm_tree gm)
    \<and> (gm_agents gm d \<noteq> None \<longrightarrow>
        gm_stops (snd (remove_agent d gm)) = gm_stops gm @ [d]
        \<and> gm_agents (snd (remove_agent d gm)) = (gm_agents gm)(d := None)
        \<and> gm_tree (snd (remove_agent d gm)) = (gm_tree gm)(d := None))"
proof (intro conjI impI)
  show "d \<noteq> ''ctl'' \<Longrightarrow> gm_tree gm d = (if gm_agents gm d = None then None else Some (DirE agent_files))"
    using manager_keeps(1) [of ops] assms by (simp add: tree_ok_def)
next
  assume "\<forall>th. OpSpawn ''ctl'' th \<notin> set ops"
  then have c: "gm_agents gm ''ctl'' = None" "gm_tree gm ''ctl'' = Some FileE"
    using manager_keeps(2) [of ops] assms by (simp_all add: ctl_ok_def)
  then show "gm_tree gm ''ctl'' = Some FileE" "fst (spawn ''ctl'' th gm) = None"
    "gm_agents (snd (spawn ''ctl'' th gm)) ''ctl'' = Some (new_gortn ''ctl'' th)"
    "gm_tree (snd (spawn ''ctl'' th gm)) = gm_tree gm"
    using gm_tree_ops(1) [of gm "''ctl''" th] by (simp_all add: spawn_def)
next
  assume "gm_agents gm d \<noteq> None"
  then show "gm_stops (snd (remove_agent d gm)) = gm_stops gm @ [d]"
    "gm_agents (snd (remove_agent d gm)) = (gm_agents gm)(d := None)"
    "gm_tree (snd (remove_agent d gm)) = (gm_tree gm)(d := None)"
    using gm_tree_ops(2) [of gm d] spawn_remove_cases(4,5) [of gm d] by blast+
qed

theorem manager_tree_witness:
  "gm_tree (fold gm_apply [OpSpawn ''a'' ''x'', OpSpawn ''b'' ''y'', OpRemove ''a''] new_manager) ''b''
     = Some (DirE [''status'', ''ctl'', ''in'', ''out'', ''arg''])
   \<and> gm_tree (fold gm_apply [OpSpawn ''a'' ''x'', OpSpawn ''b'' ''y'', OpRemove ''a''] new_manager) ''a'' = None
   \<and> gm_tree (fold gm_apply [OpSpawn ''a'' ''x'', OpSpawn ''b'' ''y'', OpRemove ''a''] new_manager) ''ctl''
     = Some FileE"
proof -
  let ?ops = "[OpSpawn ''a'' ''x'', OpSpawn ''b'' ''y'', OpRemove ''a'']"
  have "gm_agents (fold gm_apply ?ops new_manager) ''a'' = None"
    "gm_agents (fold gm_apply ?ops new_manager) ''b'' \<noteq> None" "\<forall>th. OpSpawn ''ctl'' th \<notin> set ?ops"
    by (simp_all add: spawn_def remove_agent_def new_manager_def)
  then show ?thesis
    using manager_tree [of "fold gm_apply ?ops new_manager" ?ops "''a''"]
      manager_tree [of "fold gm_apply ?ops new_manager" ?ops "''b''"]
    by (simp only: agent_files_def simp_thms list.inject char.inject if_False if_True)
qed

text \<open>Spawning under a name in use is refused and changes nothing, so two writes to
  \<open>/gortns/ctl\<close> in the same nanosecond give one agent; a write that is not a spawn is accepted
  and ignored.\<close>

lemma spawn_refuses_duplicate:
  "(gm_agents gm gid \<noteq> None \<longrightarrow> snd (spawn gid t gm) = gm \<and> fst (spawn gid t gm) \<noteq> None)
   \<and> (gm_agents gm gid = None \<longrightarrow>
       gm_agents (snd (spawn gid t gm)) gid = Some (new_gortn gid t)
       \<and> fst (spawn gid t (snd (spawn gid t gm))) = Some (''agent '' @ gid @ '' already exists''))
   \<and> (\<not> has_prefix ''spawn '' (trim_space d) \<longrightarrow> dir_ctl_write now d gm = (Inr (length d), gm))"
  by (auto simp: spawn_def dir_ctl_write_def)

lemma spawn_refuses_duplicate_example:
  "fst (spawn ''t1'' ''x'' (snd (spawn ''t1'' ''x'' new_manager))) = Some ''agent t1 already exists''"
  using spawn_refuses_duplicate [of new_manager "''t1''" "''x''"] by (simp add: new_manager_def)

end
