(* ===== verification/L9term.thy ===== *)
theory L9term
  imports Gortns
begin

text \<open>
  \<open>cmd/l9term/main.go\<close>: the terminal's agents (\<open>agentBuf\<close>, \<open>Agent\<close>), their files, their
  goroutines as a step relation, and the command loop of \<open>main\<close>. The structure is that of
  \<open>Gortns\<close>; the differences are where a new reader starts (at the end), how \<open>stop\<close> works (by the
  command itself, the channel \<open>stop\<close> has no sender), and that there is no manager: \<open>main\<close> makes
  the directories and nothing removes them.
\<close>

section \<open>agentBuf\<close>

record agent_buf =
  ab_buf :: string
  ab_closed :: bool
  ab_wake :: bool
  ab_readers :: "nat \<rightharpoonup> nat"

definition new_agent_buf :: agent_buf where
  "new_agent_buf = \<lparr>ab_buf = [], ab_closed = False, ab_wake = False, ab_readers = Map.empty\<rparr>"

definition ab_write :: "string \<Rightarrow> agent_buf \<Rightarrow> agent_buf" where
  "ab_write d b = b\<lparr>ab_buf := ab_buf b @ d, ab_wake := True\<rparr>"

definition ab_close :: "agent_buf \<Rightarrow> agent_buf" where
  "ab_close b = b\<lparr>ab_closed := True, ab_wake := True\<rparr>"

definition ab_open_read :: "nat \<Rightarrow> agent_buf \<Rightarrow> agent_buf" where
  "ab_open_read fid b = b\<lparr>ab_readers := (ab_readers b)(fid \<mapsto> length (ab_buf b))\<rparr>"

definition ab_close_read :: "nat \<Rightarrow> agent_buf \<Rightarrow> agent_buf" where
  "ab_close_read fid b = b\<lparr>ab_readers := (ab_readers b)(fid := None)\<rparr>"

text \<open>One turn of the loop of \<open>Read\<close>.\<close>

definition ab_read :: "nat \<Rightarrow> nat \<Rightarrow> agent_buf \<Rightarrow> read_result \<times> agent_buf" where
  "ab_read fid count b =
     (let offset = reader_pos (ab_readers b) fid; total = length (ab_buf b);
          avail = total - offset in
      if avail > 0 then
        let n = (if count > avail then avail else count) in
        (Data (take n (drop offset (ab_buf b))), b\<lparr>ab_readers := (ab_readers b)(fid \<mapsto> offset + n)\<rparr>)
      else if ab_closed b then (Eof, b)
      else (Wait, b))"

definition ab_pos :: "nat \<Rightarrow> agent_buf \<Rightarrow> nat" where
  "ab_pos f b = reader_pos (ab_readers b) f"

definition ab_ok :: "agent_buf \<Rightarrow> bool" where
  "ab_ok b \<longleftrightarrow> (\<forall>f. ab_pos f b \<le> length (ab_buf b))"

interpretation agent_stream: fid_stream ab_open_read ab_write ab_read ab_close_read ab_buf ab_pos ab_ok
proof unfold_locales
  fix s s' :: agent_buf and f h n :: nat and d r
  show "ab_ok s \<Longrightarrow> ab_pos f s \<le> length (ab_buf s)"
    by (simp add: ab_ok_def)
  show "ab_ok s \<Longrightarrow> ab_ok (ab_open_read f s) \<and> ab_buf (ab_open_read f s) = ab_buf s
      \<and> (h \<noteq> f \<longrightarrow> ab_pos h (ab_open_read f s) = ab_pos h s)"
    by (simp add: ab_ok_def ab_pos_def ab_open_read_def)
  show "ab_ok s \<Longrightarrow> ab_ok (ab_close_read f s) \<and> ab_buf (ab_close_read f s) = ab_buf s
      \<and> (h \<noteq> f \<longrightarrow> ab_pos h (ab_close_read f s) = ab_pos h s)"
    by (simp add: ab_ok_def ab_pos_def ab_close_read_def)
  show "ab_ok s \<Longrightarrow> ab_ok (ab_write d s) \<and> ab_buf (ab_write d s) = ab_buf s @ d
      \<and> ab_pos h (ab_write d s) = ab_pos h s"
    by (auto simp: ab_ok_def ab_pos_def ab_write_def intro: trans_le_add1)
  assume i: "ab_ok s"
  have n: "(if avail < n then avail else n) = min n avail" for avail :: nat by auto
  { assume r: "ab_read f n s = (Data d, s')"
    then have a: "ab_pos f s < length (ab_buf s)"
      by (auto simp: ab_read_def Let_def ab_pos_def split: if_splits)
    let ?o = "ab_pos f s" and ?m = "min n (length (ab_buf s) - ab_pos f s)"
    have d: "d = take ?m (drop ?o (ab_buf s))"
      and s': "s' = s\<lparr>ab_readers := (ab_readers s)(f \<mapsto> ?o + ?m)\<rparr>"
      using r a by (auto simp: ab_read_def Let_def ab_pos_def n split: if_splits)
    have "take ?m (drop ?o (ab_buf s)) = take n (drop ?o (ab_buf s))" by (simp add: min_def)
    moreover have "length d = ?m" using d by simp
    ultimately show "ab_ok s' \<and> ab_buf s' = ab_buf s \<and> d = take n (drop (ab_pos f s) (ab_buf s))
        \<and> ab_pos f s' = ab_pos f s + length d \<and> (h \<noteq> f \<longrightarrow> ab_pos h s' = ab_pos h s)"
      using i a d by (auto simp: s' ab_ok_def ab_pos_def) }
  assume "ab_read f n s = (r, s')" and "r = Eof \<or> r = Wait"
  then show "s' = s \<and> ab_pos f s = length (ab_buf s)"
    using i by (auto simp: ab_read_def Let_def ab_pos_def ab_ok_def split: if_splits intro: antisym)
qed

section \<open>Agents\<close>

datatype agent_phase = NotRunning | Selecting | Commanding nat | Returned

record agent =
  a_id :: string
  a_out :: agent_buf
  a_in :: "string list"
  a_ctl :: "string list"
  a_state :: string
  a_status :: string
  a_phase :: agent_phase
  a_pumps :: nat                      \<comment> \<open>stdin pumps started; none ever ends\<close>
  a_stdin :: "(nat \<times> string) list"
  a_lost :: "string list"
  a_waiting :: "nat set"

definition new_agent :: "string \<Rightarrow> agent" where
  "new_agent gid =
     \<lparr>a_id = gid, a_out = new_agent_buf, a_in = [], a_ctl = [], a_state = ''running'', a_status = [],
      a_phase = NotRunning, a_pumps = 0, a_stdin = [], a_lost = [], a_waiting = {}\<rparr>"

definition a_set_state :: "string \<Rightarrow> string \<Rightarrow> agent \<Rightarrow> agent" where
  "a_set_state st detail a = a\<lparr>a_state := st, a_status := detail\<rparr>"

definition a_write :: "string \<Rightarrow> agent \<Rightarrow> agent" where
  "a_write d a = a\<lparr>a_out := ab_write d (a_out a)\<rparr>"

definition tab_tag :: "agent \<Rightarrow> string" where
  "tab_tag a = ''[tab '' @ a_id a @ ''] ''"

definition a_start :: "string \<Rightarrow> agent \<Rightarrow> agent" where
  "a_start thought a = (a_write (tab_tag a @ thought @ ''\<newline>'') a)\<lparr>a_phase := Selecting\<rparr>"

definition a_stop :: "agent \<Rightarrow> agent" where
  "a_stop a =
     (let a1 = a_write (tab_tag a @ ''stopped'' @ ''\<newline>'') (a_set_state ''stopped'' [] a)
      in a1\<lparr>a_out := ab_close (a_out a1), a_phase := Returned\<rparr>)"

definition a_exec_begin :: "string \<Rightarrow> agent \<Rightarrow> agent" where
  "a_exec_begin cmd a =
     (let a1 = a_write (''$ '' @ cmd @ ''\<newline>'') (a_set_state ''running'' (''exec: '' @ cmd) a)
      in a1\<lparr>a_phase := Commanding (a_pumps a1), a_pumps := Suc (a_pumps a1)\<rparr>)"

definition a_exec_end :: "exec_result \<Rightarrow> agent \<Rightarrow> agent" where
  "a_exec_end r a =
     (case r of
        Exited n \<Rightarrow> a_set_state ''idle'' (''done: '' @ itoa_nat n) a
      | Failed e \<Rightarrow> a_set_state ''idle'' (''error: '' @ e) a)\<lparr>a_phase := Selecting\<rparr>"

text \<open>The switch of \<open>run\<close> on the trimmed command.\<close>

definition a_command :: "string \<Rightarrow> agent \<Rightarrow> agent" where
  "a_command c a =
     (let cmd = trim_space c in
      if cmd = ''stop'' then a_stop a
      else if has_prefix ''exec '' cmd then a_exec_begin (trim_prefix ''exec '' cmd) a
      else if has_prefix ''echo '' cmd then a_write (trim_prefix ''echo '' cmd @ ''\<newline>'') a
      else a_write (tab_tag a @ ''unknown: '' @ cmd @ ''\<newline>'') a)"

definition a_pump_take :: "nat \<Rightarrow> agent \<Rightarrow> agent" where
  "a_pump_take i a =
     (case a_in a of
        [] \<Rightarrow> a
      | d # ds \<Rightarrow>
          if a_phase a = Commanding i then a\<lparr>a_in := ds, a_stdin := a_stdin a @ [(i, d)]\<rparr>
          else a\<lparr>a_in := ds, a_lost := a_lost a @ [d]\<rparr>)"

subsection \<open>Files\<close>

definition a_status_line :: "agent \<Rightarrow> string" where
  "a_status_line a = a_state a @ (if a_status a \<noteq> [] then '' '' @ a_status a else []) @ ''\<newline>''"

definition a_status_read :: "agent \<Rightarrow> u64 \<Rightarrow> u64 \<Rightarrow> (goerr + string) go" where
  "a_status_read a offset count = read_window EOF (a_status_line a) offset count"

definition a_ctl_write :: "string \<Rightarrow> agent \<Rightarrow> agent option" where
  "a_ctl_write d a =
     (if length (a_ctl a) < 8 then Some (a\<lparr>a_ctl := a_ctl a @ [trim_space d]\<rparr>) else None)"

definition a_in_write :: "string \<Rightarrow> agent \<Rightarrow> agent" where
  "a_in_write d a = (if length (a_in a) < 256 then a\<lparr>a_in := a_in a @ [d]\<rparr> else a)"

definition a_read :: "nat \<Rightarrow> nat \<Rightarrow> agent \<Rightarrow> read_result \<times> agent" where
  "a_read fid n a = (case ab_read fid n (a_out a) of (r, b) \<Rightarrow> (r, a\<lparr>a_out := b\<rparr>))"

section \<open>Steps\<close>

datatype alabel =
    ARun string | ACtl string | AIn string | AOpen nat | AClunk nat | AData nat nat string
  | AEof nat | ABlock nat | AWoken nat | ATimeout nat | ATake string | AOutput string
  | AEnd exec_result | APump nat

inductive astep :: "agent \<Rightarrow> alabel \<Rightarrow> agent \<Rightarrow> bool" where
  a_run: "a_phase a = NotRunning \<Longrightarrow> astep a (ARun t) (a_start t a)"
| a_ctl: "a_ctl_write d a = Some a' \<Longrightarrow> astep a (ACtl d) a'"
| a_in: "astep a (AIn d) (a_in_write d a)"
| a_open: "astep a (AOpen fid) (a\<lparr>a_out := ab_open_read fid (a_out a)\<rparr>)"
| a_clunk: "astep a (AClunk fid) (a\<lparr>a_out := ab_close_read fid (a_out a)\<rparr>)"
| a_data: "fid \<notin> a_waiting a \<Longrightarrow> a_read fid n a = (Data d, a') \<Longrightarrow> astep a (AData fid n d) a'"
| a_eof: "fid \<notin> a_waiting a \<Longrightarrow> a_read fid n a = (Eof, a') \<Longrightarrow> astep a (AEof fid) a'"
| a_block: "fid \<notin> a_waiting a \<Longrightarrow> a_read fid n a = (Wait, a') \<Longrightarrow>
    astep a (ABlock fid) (a'\<lparr>a_waiting := insert fid (a_waiting a')\<rparr>)"
| a_wake: "fid \<in> a_waiting a \<Longrightarrow> ab_wake (a_out a) \<Longrightarrow>
    astep a (AWoken fid)
      (a\<lparr>a_out := (a_out a)\<lparr>ab_wake := False\<rparr>, a_waiting := a_waiting a - {fid}\<rparr>)"
| a_timeout: "fid \<in> a_waiting a \<Longrightarrow> astep a (ATimeout fid) (a\<lparr>a_waiting := a_waiting a - {fid}\<rparr>)"
| a_take: "a_phase a = Selecting \<Longrightarrow> a_ctl a = c # cs \<Longrightarrow>
    astep a (ATake c) (a_command c (a\<lparr>a_ctl := cs\<rparr>))"
| a_output: "a_phase a = Commanding i \<Longrightarrow> d \<noteq> [] \<Longrightarrow> astep a (AOutput d) (a_write d a)"
| a_end: "a_phase a = Commanding i \<Longrightarrow> astep a (AEnd r) (a_exec_end r a)"
| a_pump: "i < a_pumps a \<Longrightarrow> a_in a \<noteq> [] \<Longrightarrow> astep a (APump i) (a_pump_take i a)"

abbreviation a_trace :: "agent \<Rightarrow> alabel list \<Rightarrow> agent \<Rightarrow> bool" where
  "a_trace \<equiv> steps astep"

inductive_cases astepE: "astep a l a'"

lemmas agent_ops = a_set_state_def a_write_def a_start_def a_stop_def a_exec_begin_def
  a_ctl_write_def a_in_write_def ab_write_def ab_close_def Let_def


section \<open>The command loop\<close>

datatype repl_action = Quit | Ignore | NewTab string | RunShell string string

definition repl_line :: "bool \<Rightarrow> string \<Rightarrow> repl_action" where
  "repl_line rc_exists input =
     (let cmd = trim_space input in
      if cmd = [] then Ignore
      else if cmd = ''exit'' \<or> cmd = ''quit'' then Quit
      else if has_prefix ''tab '' cmd \<or> has_prefix ''spawn '' cmd then
        let prefix = (if has_prefix ''tab '' cmd then ''tab '' else ''spawn '')
        in NewTab (trim_prefix prefix cmd)
      else RunShell (if rc_exists then ''/usr/local/plan9/bin/rc'' else ''/bin/sh'') cmd)"

definition tab_calls :: "string \<Rightarrow> dir_call list" where
  "tab_calls gid = AddDir gid # map (AddFile gid) [''status'', ''ctl'', ''in'', ''out'']"

text \<open>A session of lines with the time at which each is read: the directory calls, the tabs
  started, the shell commands run. It ends with the input or at \<open>exit\<close>.\<close>

fun repl :: "bool \<Rightarrow> (nat \<times> string) list
    \<Rightarrow> dir_call list \<times> (string \<times> string) list \<times> (string \<times> string) list" where
  "repl rc [] = ([], [], [])"
| "repl rc ((now, line) # ls) =
     (case repl_line rc line of
        Quit \<Rightarrow> ([], [], [])
      | Ignore \<Rightarrow> repl rc ls
      | NewTab thought \<Rightarrow>
          let gid = ''t'' @ itoa_nat now; (calls, tabs, cmds) = repl rc ls
          in (tab_calls gid @ calls, (gid, thought) # tabs, cmds)
      | RunShell sh cmd \<Rightarrow>
          let (calls, tabs, cmds) = repl rc ls in (calls, tabs, (sh, cmd) # cmds))"

section \<open>Properties\<close>

lemma a_exec_end_fields [simp]:
  "a_out (a_exec_end r a) = a_out a" "a_ctl (a_exec_end r a) = a_ctl a"
  "a_in (a_exec_end r a) = a_in a" "a_pumps (a_exec_end r a) = a_pumps a"
  "a_phase (a_exec_end r a) = Selecting"
  by (auto simp: a_exec_end_def a_set_state_def split: exec_result.split)

lemma a_pump_take_fields [simp]:
  "a_out (a_pump_take i a) = a_out a" "a_ctl (a_pump_take i a) = a_ctl a"
  "a_pumps (a_pump_take i a) = a_pumps a" "a_phase (a_pump_take i a) = a_phase a"
  "length (a_in (a_pump_take i a)) \<le> length (a_in a)"
  by (auto simp: a_pump_take_def split: list.split)

lemma a_read_fields:
  "a_read fid n a = (r, a') \<Longrightarrow>
   a_ctl a' = a_ctl a \<and> a_in a' = a_in a \<and> a_pumps a' = a_pumps a \<and> a_phase a' = a_phase a
   \<and> ab_buf (a_out a') = ab_buf (a_out a) \<and> ab_closed (a_out a') = ab_closed (a_out a)"
  by (auto simp: a_read_def ab_read_def Let_def split: if_splits)

lemma a_command_fields:
  "a_ctl (a_command c a) = a_ctl a" "a_in (a_command c a) = a_in a"
  "a_pumps a \<le> a_pumps (a_command c a)" "\<exists>d. ab_buf (a_out (a_command c a)) = ab_buf (a_out a) @ d"
  by (auto simp: a_command_def agent_ops)

text \<open>A returned agent is closed for good and takes no further command; pumps only grow.\<close>

definition returned_ok :: "agent \<Rightarrow> bool" where
  "returned_ok a \<longleftrightarrow> (a_phase a = Returned \<longleftrightarrow> ab_closed (a_out a))"

lemma astep_returned: "astep a l a' \<Longrightarrow> a_phase a = Returned \<Longrightarrow>
    a_phase a' = Returned \<and> (\<exists>cs. a_ctl a' = a_ctl a @ cs) \<and> ab_buf (a_out a') = ab_buf (a_out a)"
  by (cases rule: astep.cases, assumption)
    (auto simp: agent_ops ab_open_read_def ab_close_read_def dest: a_read_fields split: if_splits)

lemma astep_pumps: "astep a l a' \<Longrightarrow> a_pumps a \<le> a_pumps a'"
  by (cases rule: astep.cases, assumption)
    (auto simp: agent_ops dest: a_read_fields intro: order_trans [OF _ a_command_fields(3)] split: if_splits)

lemma astep_ctl_bound: "astep a l a' \<Longrightarrow> length (a_ctl a) \<le> 8 \<Longrightarrow> length (a_ctl a') \<le> 8"
  by (cases rule: astep.cases, assumption)
    (auto simp: agent_ops a_command_fields dest: a_read_fields split: if_splits)

lemma a_trace_returned: "a_trace a ls a' \<Longrightarrow> a_phase a = Returned \<Longrightarrow> length (a_ctl a) = 8 \<Longrightarrow>
    a_phase a' = Returned \<and> length (a_ctl a') = 8"
proof (induction rule: steps.induct)
  case (steps_nil a)
  then show ?case by simp
next
  case (steps_cons a l a1 ls a2)
  then show ?case
    using astep_returned [OF steps_cons.hyps(1)] astep_ctl_bound [OF steps_cons.hyps(1)] by fastforce
qed

text \<open>Claim C23. A reader of a tab's \<open>out\<close> gets everything written after it opened the file, each byte
  once and in order, in any interleaving with writes and other readers; when a read finds
  nothing, it has got all of it. Output from before the open it never sees.\<close>

theorem l9_reader_stream:
  assumes "ab_ok b" and "\<forall>oper \<in> set ops. \<not> touches oper fid"
    and "received ab_open_read ab_write ab_read ab_close_read fid ops (ab_open_read fid b) = (ds, b')"
  shows "\<exists>later. ab_buf b' = ab_buf b @ later \<and> ds = take (length ds) later
    \<and> (\<forall>n r s. ab_read fid n b' = (r, s) \<longrightarrow> r = Eof \<or> r = Wait \<longrightarrow> ds = later)"
proof -
  let ?b = "ab_open_read fid b"
  have i: "ab_ok ?b" and o: "ab_buf ?b = ab_buf b"
    using agent_stream.opn_keeps [OF assms(1)] by blast+
  have p: "ab_pos fid ?b = length (ab_buf b)" by (simp add: ab_pos_def ab_open_read_def)
  note rs = agent_stream.reader_stream [OF i assms(2)]
  then obtain later where l: "ab_buf b' = ab_buf b @ later" using assms(3) o by auto
  have d: "drop (ab_pos fid ?b) (ab_buf b') = later" using l p by simp
  have "ds = later" if r: "ab_read fid n b' = (r, s)" "r = Eof \<or> r = Wait" for n r s
  proof -
    have "s = b'" using agent_stream.rd_none r rs assms(3) by auto
    then show ?thesis
      using agent_stream.reader_caught_up [OF i assms(2), of n r s] r assms(3) d by simp
  qed
  moreover have "ds = take (length ds) (drop (ab_pos fid ?b) (ab_buf b'))"
    using rs assms(3) by simp
  note this [unfolded d]
  ultimately show ?thesis using l by blast
qed

theorem l9_reader_stream_witness:
  "fst (received ab_open_read ab_write ab_read ab_close_read 1 [OpWrite ''new'', OpRead 1 9]
     (ab_open_read 1 (ab_write ''old'' new_agent_buf))) = ''new''"
proof -
  let ?b = "ab_write ''old'' new_agent_buf"
  let ?r = "received ab_open_read ab_write ab_read ab_close_read 1 [OpWrite ''new'', OpRead 1 9]
     (ab_open_read 1 ?b)"
  have "ab_ok ?b" by (simp add: ab_ok_def ab_pos_def reader_pos_def ab_write_def new_agent_buf_def)
  moreover have "ab_buf ?b = ''old''" "ab_buf (snd ?r) = ''oldnew''" "fst (ab_read 1 1 (snd ?r)) = Wait"
    by (simp_all add: ab_read_def ab_write_def ab_open_read_def new_agent_buf_def got_def split_beta)
  ultimately show ?thesis
    using l9_reader_stream [of ?b "[OpWrite ''new'', OpRead 1 9]" 1 "fst ?r" "snd ?r"]
    by (fastforce simp: prod_eq_iff)
qed

text \<open>Successive reads of one fid, and what they should bring when no more output comes: the rest in
  pieces of at most the sizes asked for, then the end of the file, every time.\<close>

fun a_reads :: "nat \<Rightarrow> nat list \<Rightarrow> agent \<Rightarrow> read_result list" where
  "a_reads fid [] a = []"
| "a_reads fid (n # ns) a = (case a_read fid n a of (r, a1) \<Rightarrow> r # a_reads fid ns a1)"

fun pieces :: "nat list \<Rightarrow> string \<Rightarrow> read_result list" where
  "pieces [] s = []"
| "pieces (n # ns) s = (if s = [] then Eof # pieces ns [] else Data (take n s) # pieces ns (drop n s))"

lemma a_reads_closed:
  assumes "ab_closed (a_out a)"
  shows "a_reads fid ns a = pieces ns (drop (ab_pos fid (a_out a)) (ab_buf (a_out a)))"
  using assms
proof (induction ns arbitrary: a)
  case (Cons n ns)
  let ?b = "a_out a" and ?p = "ab_pos fid (a_out a)"
  let ?m = "min n (length (ab_buf ?b) - ?p)"
  show ?case
  proof (cases "?p < length (ab_buf ?b)")
    case True
    let ?a1 = "a\<lparr>a_out := ?b\<lparr>ab_readers := (ab_readers ?b)(fid \<mapsto> ?p + ?m)\<rparr>\<rparr>"
    have m: "(if k < n then k else n) = min n k" for k :: nat by auto
    have r: "a_read fid n a = (Data (take ?m (drop ?p (ab_buf ?b))), ?a1)"
      using True by (simp add: a_read_def ab_read_def ab_pos_def Let_def m)
    have "take ?m (drop ?p (ab_buf ?b)) = take n (drop ?p (ab_buf ?b))" by (simp add: min_def)
    moreover have "a_reads fid ns ?a1 = pieces ns (drop (?p + ?m) (ab_buf ?b))"
      using Cons.IH [of ?a1] Cons.prems by (simp add: ab_pos_def)
    moreover have "drop (?p + ?m) (ab_buf ?b) = drop n (drop ?p (ab_buf ?b))"
      by (simp add: min_def add.commute)
    ultimately show ?thesis using True r by simp
  next
    case False
    then have "a_read fid n a = (Eof, a)"
      using Cons.prems by (simp add: a_read_def ab_read_def ab_pos_def)
    then show ?thesis using False Cons by simp
  qed
qed simp

text \<open>Claim C35. The command \<open>stop\<close> works: written to \<open>ctl\<close> of a tab that waits for commands, it ends
  the run loop and closes the output after a last line, and the status reads \<open>stopped\<close>. Every
  reader, wherever in the output it is, gets the rest of it, that line included, in pieces as
  large as its reads ask for, and then the end of file instead of waiting.\<close>

theorem l9_stop_works:
  assumes "a_phase a = Selecting" and "a_ctl a = []" and "trim_space d = ''stop''"
  shows "\<exists>a'. a_trace a [ACtl d, ATake ''stop''] a' \<and> a_phase a' = Returned
    \<and> ab_buf (a_out a') = ab_buf (a_out a) @ tab_tag a @ ''stopped'' @ ''\<newline>''
    \<and> a_status_line a' = ''stopped'' @ ''\<newline>''
    \<and> (\<forall>fid ns. a_reads fid ns a' =
        pieces ns (drop (ab_pos fid (a_out a)) (ab_buf (a_out a) @ tab_tag a @ ''stopped'' @ ''\<newline>'')))"
proof -
  have t: "trim_space ''stop'' = ''stop''" using ctl_parts_stop by simp
  let ?a1 = "a\<lparr>a_ctl := [''stop'']\<rparr>"
  have 1: "astep a (ACtl d) ?a1"
    by (rule a_ctl) (simp add: a_ctl_write_def assms)
  have "astep ?a1 (ATake ''stop'') (a_command ''stop'' (?a1\<lparr>a_ctl := []\<rparr>))"
    by (rule a_take) (simp_all add: assms)
  moreover have "a_command ''stop'' (?a1\<lparr>a_ctl := []\<rparr>) = a_stop a"
    using assms(2) by (cases a) (simp add: a_command_def t Let_def)
  ultimately have "a_trace a [ACtl d, ATake ''stop''] (a_stop a)"
    using 1 by (auto intro: steps.intros)
  moreover have "a_phase (a_stop a) = Returned"
    "ab_buf (a_out (a_stop a)) = ab_buf (a_out a) @ tab_tag a @ ''stopped'' @ ''\<newline>''"
    "a_status_line (a_stop a) = ''stopped'' @ ''\<newline>''" "ab_closed (a_out (a_stop a))"
    "ab_pos fid (a_out (a_stop a)) = ab_pos fid (a_out a)" for fid
    by (simp_all add: agent_ops a_status_line_def ab_pos_def)
  ultimately show ?thesis
    by (intro exI [of _ "a_stop a"]) (simp add: a_reads_closed)
qed

definition demo_tab :: agent where
  "demo_tab = a_start ''make'' (new_agent ''t1'')"

theorem l9_stop_works_witness:
  "\<exists>a'. a_trace demo_tab [ACtl ''stop'', ATake ''stop''] a' \<and> a_status_line a' = ''stopped'' @ ''\<newline>''
    \<and> a_reads 1 [4, 100, 9] a' = [Data ''[tab'', Data ('' t1] make'' @ ''\<newline>'' @ ''[tab t1] stopped'' @ ''\<newline>''), Eof]"
proof -
  have d: "a_phase demo_tab = Selecting" "a_ctl demo_tab = []" "ab_pos 1 (a_out demo_tab) = 0"
    "ab_buf (a_out demo_tab) = ''[tab t1] make'' @ ''\<newline>''" "tab_tag demo_tab = ''[tab t1] ''"
    by (simp_all add: demo_tab_def new_agent_def agent_ops new_agent_buf_def ab_pos_def reader_pos_def
        tab_tag_def)
  obtain a' where a: "a_trace demo_tab [ACtl ''stop'', ATake ''stop''] a'"
    "a_status_line a' = ''stopped'' @ ''\<newline>''"
    "a_reads 1 [4, 100, 9] a' = pieces [4, 100, 9] (drop (ab_pos 1 (a_out demo_tab))
       (ab_buf (a_out demo_tab) @ tab_tag demo_tab @ ''stopped'' @ ''\<newline>''))"
    using l9_stop_works [OF d(1,2) ctl_parts_stop(2)] by blast
  from a(3) have "a_reads 1 [4, 100, 9] a'
      = [Data ''[tab'', Data ('' t1] make'' @ ''\<newline>'' @ ''[tab t1] stopped'' @ ''\<newline>''), Eof]"
    unfolding d by simp
  with a(1,2) show ?thesis by blast
qed

text \<open>What a tab does by itself. It rests when it waits for commands with none queued or for the end of
  an executed one, or when it has been stopped; commands behind a \<open>stop\<close> are left.\<close>

fun tab_own :: "alabel \<Rightarrow> bool" where
  "tab_own (ARun t) \<longleftrightarrow> True"
| "tab_own (ATake c) \<longleftrightarrow> True"
| "tab_own _ \<longleftrightarrow> False"

definition tab_work :: "agent \<Rightarrow> nat" where
  "tab_work a =
     length (a_ctl a) + (case a_phase a of NotRunning \<Rightarrow> 1 | _ \<Rightarrow> 0)"

definition tab_rest :: "agent \<Rightarrow> bool" where
  "tab_rest a \<longleftrightarrow> a_phase a = Returned \<or> a_phase a = Selecting \<and> a_ctl a = []
     \<or> (\<exists>i. a_phase a = Commanding i)"

lemma tab_own_less: "astep a l a' \<Longrightarrow> tab_own l \<Longrightarrow> tab_work a' < tab_work a"
  by (erule astepE) (auto simp: tab_work_def a_command_def agent_ops)

lemma tab_moves: "\<not> tab_rest a \<Longrightarrow> \<exists>l a'. tab_own l \<and> astep a l a'"
proof (cases "a_phase a")
  case NotRunning
  then show ?thesis using a_run tab_own.simps(1) by blast
next
  case Selecting
  moreover assume "\<not> tab_rest a"
  ultimately obtain c cs where "a_ctl a = c # cs" by (cases "a_ctl a") (auto simp: tab_rest_def)
  with Selecting show ?thesis using a_take tab_own.simps(2) by blast
qed (auto simp: tab_rest_def)

interpretation tab_worker: worker astep tab_own tab_work "\<lambda>a. True" tab_rest
  by unfold_locales (simp, rule tab_own_less, assumption+, rule tab_moves, assumption,
    auto simp: tab_rest_def elim!: astepE)

lemma l9_settles:
  assumes "a_trace a ls a'" and "list_all tab_own ls"
  shows "length ls \<le> length (a_ctl a) + 1
    \<and> ((\<nexists>l a''. tab_own l \<and> astep a' l a'') \<longleftrightarrow> tab_rest a')
    \<and> (\<exists>ms a''. a_trace a' ms a'' \<and> list_all tab_own ms \<and> tab_rest a'')"
proof -
  have "tab_work a \<le> length (a_ctl a) + 1"
    by (cases "a_phase a") (simp_all add: tab_work_def)
  then show ?thesis using tab_worker.settles [OF TrueI assms] by simp
qed

text \<open>Claim C40. A stopped tab stays in the tree and nobody reads its commands: once eight of them
  wait, every later write to its \<open>ctl\<close> blocks forever, whatever else happens.\<close>

theorem l9_stopped_ctl_blocks:
  assumes "a_phase a = Returned" and "length (a_ctl a) = 8" and "a_trace a ls a'"
  shows "a_ctl_write d a' = None"
  using a_trace_returned [OF assms(3,1,2)] by (simp add: a_ctl_write_def)

theorem l9_stopped_ctl_blocks_witness:
  "\<exists>a. a_phase a = Returned \<and> a_ctl_write ''exec date'' a = None"
proof -
  let ?a = "(a_stop demo_tab)\<lparr>a_ctl := replicate 8 ''x''\<rparr>"
  have "a_phase ?a = Returned" by (simp add: agent_ops)
  moreover have "length (a_ctl ?a) = 8" by simp
  ultimately show ?thesis
    using l9_stopped_ctl_blocks [of ?a "[]" ?a "''exec date''"] steps_nil [of astep ?a] by blast
qed

text \<open>The goroutine that feeds a command's input never ends: each \<open>exec\<close> adds one and no
  step removes one, and while a later command runs, data written to \<open>in\<close> can go to the pump of
  an ended command, and is lost.\<close>

lemma l9_pumps_leak:
  "(astep a l a' \<longrightarrow> a_pumps a \<le> a_pumps a')
   \<and> (a_phase a = Selecting \<longrightarrow> a_ctl a = c # cs \<longrightarrow> has_prefix ''exec '' (trim_space c) \<longrightarrow>
        (\<exists>a1. astep a (ATake c) a1 \<and> a_pumps a1 = Suc (a_pumps a) \<and> a_phase a1 = Commanding (a_pumps a)))
   \<and> (a_phase a = Commanding i \<longrightarrow> j < i \<longrightarrow> i < a_pumps a \<longrightarrow> a_in a = d # ds \<longrightarrow>
        (\<exists>a1. astep a (APump j) a1 \<and> a_in a1 = ds \<and> a_stdin a1 = a_stdin a \<and> a_lost a1 = a_lost a @ [d]))"
proof (intro conjI impI)
  show "astep a l a' \<Longrightarrow> a_pumps a \<le> a_pumps a'" by (rule astep_pumps)
next
  assume s: "a_phase a = Selecting" "a_ctl a = c # cs" and e: "has_prefix ''exec '' (trim_space c)"
  then have "trim_space c \<noteq> ''stop''" by (auto simp: has_prefix_def)
  then have "a_pumps (a_command c (a\<lparr>a_ctl := cs\<rparr>)) = Suc (a_pumps a)"
    "a_phase (a_command c (a\<lparr>a_ctl := cs\<rparr>)) = Commanding (a_pumps a)"
    using e by (simp_all add: a_command_def agent_ops)
  with a_take [OF s] show
    "\<exists>a1. astep a (ATake c) a1 \<and> a_pumps a1 = Suc (a_pumps a) \<and> a_phase a1 = Commanding (a_pumps a)"
    by blast
next
  assume "a_phase a = Commanding i" "j < i" "i < a_pumps a" "a_in a = d # ds"
  moreover from this have "astep a (APump j) (a_pump_take j a)" by (intro a_pump) simp_all
  ultimately show
    "\<exists>a1. astep a (APump j) a1 \<and> a_in a1 = ds \<and> a_stdin a1 = a_stdin a \<and> a_lost a1 = a_lost a @ [d]"
    by (intro exI [of _ "a_pump_take j a"]) (simp add: a_pump_take_def)
qed

lemma l9_pumps_leak_example:
  "\<exists>a a1. astep a (APump 0) a1 \<and> a_in a = [''data''] \<and> a_lost a1 = [''data''] \<and> a_stdin a1 = []"
proof -
  let ?a = "a_exec_begin ''cat'' (a_exec_end (Exited 0) (a_exec_begin ''cat'' demo_tab))\<lparr>a_in := [''data'']\<rparr>"
  have "a_phase ?a = Commanding 1" "a_pumps ?a = 2" "a_in ?a = [''data'']" "a_stdin ?a = []" "a_lost ?a = []"
    by (simp_all add: demo_tab_def new_agent_def agent_ops a_exec_end_def)
  with l9_pumps_leak [of ?a _ ?a _ _ 1 0 "''data''" "[]"] show ?thesis by fastforce
qed

text \<open>The command loop: every line \<open>tab text\<close> or \<open>spawn text\<close> before an \<open>exit\<close> makes one
  directory with the four files of an agent and starts it with the text; no call ever adds a
  file \<open>ctl\<close> to \<open>/gortns\<close> itself, through which the header comment says tabs are spawned.\<close>

lemma l9_repl_tabs:
  "fst (repl rc ls) = concat (map (\<lambda>(gid, thought). tab_calls gid) (fst (snd (repl rc ls))))
   \<and> (\<forall>f. AddBaseFile f \<notin> set (fst (repl rc ls)))
   \<and> (\<forall>sh cmd. (sh, cmd) \<in> set (snd (snd (repl rc ls))) \<longrightarrow>
        cmd \<noteq> [] \<and> \<not> has_prefix ''tab '' cmd \<and> \<not> has_prefix ''spawn '' cmd)"
proof (induction rc ls rule: repl.induct)
  case (1 rc)
  show ?case by simp
next
  case (2 rc now line ls)
  show ?case
  proof (cases "repl_line rc line")
    case (NewTab thought)
    note ih = "2.IH"(2) [OF NewTab refl]
    obtain calls tabs cmds where r: "repl rc ls = (calls, tabs, cmds)" by (metis prod.exhaust)
    let ?g = "''t'' @ itoa_nat now"
    have e: "repl rc ((now, line) # ls) = (tab_calls ?g @ calls, (?g, thought) # tabs, cmds)"
      by (simp add: NewTab Let_def r)
    have "AddBaseFile f \<notin> set (tab_calls ?g)" for f by (simp add: tab_calls_def)
    then show ?thesis
      using ih unfolding e r fst_conv snd_conv set_append Un_iff list.map concat.simps prod.case
      by blast
  next
    case (RunShell sh cmd)
    then have "cmd \<noteq> [] \<and> \<not> has_prefix ''tab '' cmd \<and> \<not> has_prefix ''spawn '' cmd"
      by (auto simp: repl_line_def Let_def split: if_splits)
    moreover obtain calls tabs cmds where r: "repl rc ls = (calls, tabs, cmds)"
      by (metis prod.exhaust)
    moreover have "repl rc ((now, line) # ls) = (calls, tabs, (sh, cmd) # cmds)"
      by (simp add: RunShell r)
    ultimately show ?thesis using "2.IH"(3) [OF RunShell] by fastforce
  qed (use "2.IH"(1) in auto)
qed


lemma l9_repl_tabs_example:
  "fst (repl True [(7, ''tab make'' @ ''\<newline>''), (8, ''ls'' @ ''\<newline>'')]) = tab_calls ''t7''
   \<and> snd (snd (repl True [(7, ''tab make'' @ ''\<newline>''), (8, ''ls'' @ ''\<newline>'')]))
     = [(''/usr/local/plan9/bin/rc'', ''ls'')]"
proof -
  let ?ls = "[(7, ''tab make'' @ ''\<newline>''), (8, ''ls'' @ ''\<newline>'')]"
  have "trim_space (''tab make'' @ ''\<newline>'') = ''tab make''" "trim_space (''ls'' @ ''\<newline>'') = ''ls''"
    by (simp_all add: trim_space_def trim_tail_def trim_lead.simps space_runes_def has_prefix_def
        char_of_def bit_Suc bit_0)
  then have r: "repl_line True (''tab make'' @ ''\<newline>'') = NewTab ''make''"
    "repl_line True (''ls'' @ ''\<newline>'') = RunShell ''/usr/local/plan9/bin/rc'' ''ls''"
    by (simp_all add: repl_line_def has_prefix_def trim_prefix_def)
  have "itoa_nat 7 = ''7''" by (simp add: itoa_nat.simps digit_chars)
  then have "fst (snd (repl True ?ls)) = [(''t7'', ''make'')]"
    "snd (snd (repl True ?ls)) = [(''/usr/local/plan9/bin/rc'', ''ls'')]"
    using r by (simp_all add: Let_def)
  then show ?thesis using l9_repl_tabs [of True ?ls] by simp
qed

end
