(* ===== verification/Go_Image.thy ===== *)
theory Go_Image
  imports Go_Base
begin

text \<open>
  What \<open>cmd/o9draw/main.go\<close> uses of the packages \<open>image\<close> and \<open>image/draw\<close>: rectangles, \<open>RGBA\<close> images
  with their byte slice \<open>Pix\<close>, and drawing with the operator \<open>Over\<close> on them, with and without an
  \<open>RGBA\<close> mask. Coordinates come from 32-bit words, so Go's 64-bit integers do not overflow on them
  and are \<open>int\<close> here. Drawing goes pixel by pixel in the order of the library, reading and writing
  the slices of the images it is given, which may be the same: images are named by the keys of a
  store. An access outside a slice is \<open>Panic\<close>.
\<close>

section \<open>Rectangles\<close>

type_synonym point = "int \<times> int"

record rect =
  x0 :: int
  y0 :: int
  x1 :: int
  y1 :: int

definition rect_of :: "int \<Rightarrow> int \<Rightarrow> int \<Rightarrow> int \<Rightarrow> rect" where
  "rect_of a b c d = \<lparr>x0 = min a c, y0 = min b d, x1 = max a c, y1 = max b d\<rparr>"

definition rect_empty :: "rect \<Rightarrow> bool" where
  "rect_empty r \<longleftrightarrow> x0 r \<ge> x1 r \<or> y0 r \<ge> y1 r"

definition in_rect :: "point \<Rightarrow> rect \<Rightarrow> bool" where
  "in_rect p r \<longleftrightarrow> x0 r \<le> fst p \<and> fst p < x1 r \<and> y0 r \<le> snd p \<and> snd p < y1 r"

definition rect_add :: "rect \<Rightarrow> point \<Rightarrow> rect" where
  "rect_add r p =
     \<lparr>x0 = x0 r + fst p, y0 = y0 r + snd p, x1 = x1 r + fst p, y1 = y1 r + snd p\<rparr>"

definition rect_intersect :: "rect \<Rightarrow> rect \<Rightarrow> rect" where
  "rect_intersect r s =
     (let q = \<lparr>x0 = max (x0 r) (x0 s), y0 = max (y0 r) (y0 s),
               x1 = min (x1 r) (x1 s), y1 = min (y1 r) (y1 s)\<rparr>
      in if rect_empty q then \<lparr>x0 = 0, y0 = 0, x1 = 0, y1 = 0\<rparr> else q)"

definition rect_overlaps :: "rect \<Rightarrow> rect \<Rightarrow> bool" where
  "rect_overlaps r s \<longleftrightarrow>
     \<not> rect_empty r \<and> \<not> rect_empty s \<and> x0 r < x1 s \<and> x0 s < x1 r \<and> y0 r < y1 s \<and> y0 s < y1 r"

lemma in_intersect: "in_rect p (rect_intersect r s) \<longleftrightarrow> in_rect p r \<and> in_rect p s"
  by (auto simp: rect_intersect_def in_rect_def rect_empty_def Let_def)

lemma in_add: "in_rect p (rect_add r q) \<longleftrightarrow> in_rect (fst p - fst q, snd p - snd q) r"
  by (auto simp: in_rect_def rect_add_def)

lemma in_rect_not_empty: "in_rect p r \<Longrightarrow> \<not> rect_empty r"
  by (auto simp: in_rect_def rect_empty_def)

section \<open>Images\<close>

record rgba =
  im_rect :: rect
  im_pix :: bytes

definition stride :: "rgba \<Rightarrow> int" where
  "stride im = 4 * (x1 (im_rect im) - x0 (im_rect im))"

text \<open>\<open>NewRGBA\<close> of a rectangle that \<open>Rect\<close> made: it panics when the size overflows an \<open>int\<close> or is more
  than can be allocated.\<close>

definition pix_len :: "rect \<Rightarrow> int" where
  "pix_len r = 4 * (x1 r - x0 r) * (y1 r - y0 r)"

definition new_rgba :: "rect \<Rightarrow> rgba go" where
  "new_rgba r =
     (if pix_len r > max_alloc then Panic
      else Ret \<lparr>im_rect = r, im_pix = replicate (nat (pix_len r)) 0\<rparr>)"

definition pix_offset :: "rgba \<Rightarrow> point \<Rightarrow> int" where
  "pix_offset im p = (snd p - y0 (im_rect im)) * stride im + (fst p - x0 (im_rect im)) * 4"

definition get_px :: "rgba \<Rightarrow> point \<Rightarrow> bytes go" where
  "get_px im p =
     (let i = pix_offset im p in
      if i < 0 then Panic else go_slice (im_pix im) (nat i) (nat i + 4))"

definition set_px :: "rgba \<Rightarrow> point \<Rightarrow> bytes \<Rightarrow> rgba go" where
  "set_px im p px =
     (let i = pix_offset im p in
      if i < 0 \<or> length (im_pix im) < nat i + 4 then Panic
      else Ret (im\<lparr>im_pix := overwrite (im_pix im) (nat i) px\<rparr>))"

text \<open>\<open>RGBA64At\<close>, one byte per channel: nothing outside the image.\<close>

definition px_at :: "rgba \<Rightarrow> point \<Rightarrow> bytes go" where
  "px_at im p = (if in_rect p (im_rect im) then get_px im p else Ret [0, 0, 0, 0])"

section \<open>Composition\<close>

definition wide :: "u8 \<Rightarrow> u32" where
  "wide b = ucast b * 0x101"

text \<open>Source over destination, without a mask and with the alpha of a mask.\<close>

definition over_px :: "bytes \<Rightarrow> bytes \<Rightarrow> bytes" where
  "over_px d s =
     (let a = (0xffff - wide (s ! 3)) * 0x101 in
      map2 (\<lambda>dc sc. ucast (drop_bit 8 (ucast dc * a div 0xffff + wide sc))) d s)"

definition over_mask_px :: "bytes \<Rightarrow> bytes \<Rightarrow> u8 \<Rightarrow> bytes" where
  "over_mask_px d s m =
     (let ma = wide m; a = (0xffff - wide (s ! 3) * ma div 0xffff) * 0x101 in
      map2 (\<lambda>dc sc. ucast (drop_bit 8 ((ucast dc * a + wide sc * ma) div 0xffff))) d s)"

section \<open>Drawing\<close>

text \<open>\<open>clip\<close>: the rectangle inside all images, and how far its corner moved.\<close>

definition clip :: "rgba \<Rightarrow> rect \<Rightarrow> rgba \<Rightarrow> point \<Rightarrow> (rgba \<times> point) option \<Rightarrow> rect" where
  "clip dst r src sp msk =
     (let r1 = rect_intersect r (im_rect dst);
          r2 = rect_intersect r1 (rect_add (im_rect src) (x0 r - fst sp, y0 r - snd sp))
      in case msk of
           None \<Rightarrow> r2
         | Some (m, mp) \<Rightarrow>
             rect_intersect r2 (rect_add (im_rect m) (x0 r - fst mp, y0 r - snd mp)))"

text \<open>The pixels of a rectangle row by row.\<close>

definition row_major :: "rect \<Rightarrow> point list" where
  "row_major r = [(x, y). y \<leftarrow> [y0 r..y1 r - 1], x \<leftarrow> [x0 r..x1 r - 1]]"

type_synonym 'k images = "'k \<rightharpoonup> rgba"

fun draw_points ::
    "('k images \<Rightarrow> point \<Rightarrow> 'k images go) \<Rightarrow> point list \<Rightarrow> 'k images \<Rightarrow> 'k images go" where
  "draw_points f [] S = Ret S"
| "draw_points f (p # ps) S = go_bind (f S p) (draw_points f ps)"

text \<open>One pixel: \<open>off\<close> is what leads from a point of the destination to the source.\<close>

definition over_step :: "'k \<Rightarrow> 'k \<Rightarrow> point \<Rightarrow> 'k images \<Rightarrow> point \<Rightarrow> 'k images go" where
  "over_step dst src off S p =
     (case (S dst, S src) of
        (Some d, Some s) \<Rightarrow>
          go_bind (get_px s (fst p + fst off, snd p + snd off)) (\<lambda>sp.
          go_bind (get_px d p) (\<lambda>dp.
          go_bind (set_px d p (over_px dp sp)) (\<lambda>d'. Ret (S(dst \<mapsto> d')))))
      | _ \<Rightarrow> Panic)"

definition mask_step ::
    "'k \<Rightarrow> 'k \<Rightarrow> point \<Rightarrow> 'k \<Rightarrow> point \<Rightarrow> 'k images \<Rightarrow> point \<Rightarrow> 'k images go" where
  "mask_step dst src off msk moff S p =
     (case (S dst, S src, S msk) of
        (Some d, Some s, Some m) \<Rightarrow>
          go_bind (px_at s (fst p + fst off, snd p + snd off)) (\<lambda>sp.
          go_bind (px_at m (fst p + fst moff, snd p + snd moff)) (\<lambda>mp.
          go_bind (get_px d p) (\<lambda>dp.
          go_bind (set_px d p (over_mask_px dp sp (mp ! 3))) (\<lambda>d'. Ret (S(dst \<mapsto> d'))))))
      | _ \<Rightarrow> Panic)"

text \<open>\<open>Draw\<close> and \<open>DrawMask\<close> on images of the store. Without a mask the order is that of
  \<open>drawCopyOver\<close>, which compares the corners; with one it is backwards only when an image is drawn
  onto an overlapping part of itself.\<close>

definition draw_over :: "'k \<Rightarrow> rect \<Rightarrow> 'k \<Rightarrow> point \<Rightarrow> 'k images \<Rightarrow> 'k images go" where
  "draw_over dst r src sp S =
     (case (S dst, S src) of
        (Some d, Some s) \<Rightarrow>
          let r' = clip d r s sp None;
              off = (fst sp - x0 r, snd sp - y0 r);
              fwd = (y0 r' < y0 r' + snd off \<or> snd off = 0 \<and> x0 r' \<le> x0 r' + fst off)
          in if rect_empty r' then Ret S
             else draw_points (over_step dst src off)
                    (if fwd then row_major r' else rev (row_major r')) S
      | _ \<Rightarrow> Ret S)"

definition draw_mask ::
    "'k \<Rightarrow> rect \<Rightarrow> 'k \<Rightarrow> point \<Rightarrow> 'k \<Rightarrow> point \<Rightarrow> 'k images \<Rightarrow> 'k images go" where
  "draw_mask dst r src sp msk mp S =
     (case (S dst, S src, S msk) of
        (Some d, Some s, Some m) \<Rightarrow>
          let r' = clip d r s sp (Some (m, mp));
              off = (fst sp - x0 r, snd sp - y0 r);
              moff = (fst mp - x0 r, snd mp - y0 r);
              bwd = (dst = src \<and> rect_overlaps r' (rect_add r' off)
                     \<and> (snd off < 0 \<or> snd off = 0 \<and> fst off < 0))
          in if rect_empty r' then Ret S
             else draw_points (mask_step dst src off msk moff)
                    (if bwd then rev (row_major r') else row_major r') S
      | _ \<Rightarrow> Ret S)"


section \<open>Drawing stays inside the slices\<close>

definition good_rect :: "rect \<Rightarrow> bool" where
  "good_rect r \<longleftrightarrow> x0 r \<le> x1 r \<and> y0 r \<le> y1 r"

definition good_image :: "rgba \<Rightarrow> bool" where
  "good_image im \<longleftrightarrow> good_rect (im_rect im) \<and> length (im_pix im) = nat (pix_len (im_rect im))"

lemma good_rect_of [simp]: "good_rect (rect_of a b c d)"
  by (simp add: good_rect_def rect_of_def min_def max_def)

lemma pix_len_nonneg: "good_rect r \<Longrightarrow> 0 \<le> pix_len r"
  by (simp add: pix_len_def good_rect_def)

lemma good_new_rgba: "good_rect r \<Longrightarrow> new_rgba r = Ret im \<Longrightarrow> good_image im"
  by (auto simp: new_rgba_def good_image_def split: if_splits)

lemma pix_offset_bounds:
  assumes "good_image im" and "in_rect p (im_rect im)"
  shows "0 \<le> pix_offset im p" and "nat (pix_offset im p) + 4 \<le> length (im_pix im)"
proof -
  let ?r = "im_rect im"
  let ?w = "x1 ?r - x0 ?r" and ?h = "y1 ?r - y0 ?r"
  let ?dx = "fst p - x0 ?r" and ?dy = "snd p - y0 ?r"
  have d: "0 \<le> ?dx" "?dx + 1 \<le> ?w" "0 \<le> ?dy" "?dy + 1 \<le> ?h"
    using assms(2) by (auto simp: in_rect_def)
  have off: "pix_offset im p = 4 * (?dy * ?w + ?dx)"
    by (simp add: pix_offset_def stride_def algebra_simps)
  show nonneg: "0 \<le> pix_offset im p"
    unfolding off using d by simp
  have "(?dy + 1) * ?w \<le> ?h * ?w"
    using d by (intro mult_right_mono) auto
  then have "?dy * ?w + ?dx + 1 \<le> ?h * ?w"
    using d by (simp add: distrib_right)
  then have "pix_offset im p + 4 \<le> pix_len ?r"
    unfolding off pix_len_def by (simp add: algebra_simps)
  then show "nat (pix_offset im p) + 4 \<le> length (im_pix im)"
    using assms(1) nonneg by (simp add: good_image_def)
qed

lemma get_px_inside:
  assumes "good_image im" and "in_rect p (im_rect im)"
  shows "\<exists>px. get_px im p = Ret px \<and> length px = 4"
  using pix_offset_bounds [OF assms] by (simp add: get_px_def go_slice_def slice_ok_def Let_def)

lemma set_px_inside:
  assumes "good_image im" and "in_rect p (im_rect im)" and "length px = 4"
  shows "\<exists>im'. set_px im p px = Ret im' \<and> good_image im' \<and> im_rect im' = im_rect im"
  using pix_offset_bounds [OF assms(1,2)] assms
  by (auto simp: set_px_def Let_def good_image_def)

lemma px_at_total: "good_image im \<Longrightarrow> \<exists>px. px_at im p = Ret px \<and> length px = 4"
  using get_px_inside [of im p] by (simp add: px_at_def)

lemma length_over [simp]:
  "length (over_px d s) = min (length d) (length s)"
  "length (over_mask_px d s m) = min (length d) (length s)"
  by (simp_all add: over_px_def over_mask_px_def Let_def)

text \<open>The images of a store keep their keys, rectangles and shape.\<close>

definition good_store :: "('k \<rightharpoonup> rgba) \<Rightarrow> bool" where
  "good_store S \<longleftrightarrow> (\<forall>k im. S k = Some im \<longrightarrow> good_image im)"

definition same_rects :: "('k \<rightharpoonup> rgba) \<Rightarrow> ('k \<rightharpoonup> rgba) \<Rightarrow> bool" where
  "same_rects S T \<longleftrightarrow> (\<forall>k. map_option im_rect (S k) = map_option im_rect (T k))"

lemma good_store_upd: "good_store S \<Longrightarrow> good_image im \<Longrightarrow> good_store (S(k \<mapsto> im))"
  by (auto simp: good_store_def)

lemma same_rects_refl [simp]: "same_rects S S"
  by (simp add: same_rects_def)

lemma same_rects_upd:
  "S k = Some im \<Longrightarrow> im_rect im' = im_rect im \<Longrightarrow> same_rects S (S(k \<mapsto> im'))"
  by (simp add: same_rects_def)

lemma row_major_in: "p \<in> set (row_major r) \<Longrightarrow> in_rect p r"
  by (auto simp: row_major_def in_rect_def)

lemma draw_points_keeps:
  assumes "\<And>T p. p \<in> set ps \<Longrightarrow> good_store T \<Longrightarrow> same_rects S T \<Longrightarrow>
      \<exists>T'. f T p = Ret T' \<and> good_store T' \<and> same_rects S T'"
    and "good_store T" and "same_rects S T"
  shows "\<exists>T'. draw_points f ps T = Ret T' \<and> good_store T' \<and> same_rects S T'"
  using assms
proof (induction ps arbitrary: T)
  case (Cons p ps)
  obtain T1 where 1: "f T p = Ret T1" "good_store T1" "same_rects S T1"
    using Cons.prems by (metis list.set_intros(1))
  moreover have "\<exists>T'. draw_points f ps T1 = Ret T' \<and> good_store T' \<and> same_rects S T'"
    using 1 Cons.prems(1) by (intro Cons.IH) auto
  ultimately show ?case by auto
qed auto

text \<open>A step writes one pixel of the destination.\<close>

lemma write_px:
  assumes "good_store T" and "same_rects S T" and "T dst = Some d"
    and "in_rect p (im_rect d)" and "length px = 4"
  shows "\<exists>T'. go_bind (set_px d p px) (\<lambda>d'. Ret (T(dst \<mapsto> d'))) = Ret T' \<and> good_store T' \<and> same_rects S T'"
proof -
  have "good_image d" using assms(1,3) by (simp add: good_store_def)
  then obtain d' where "set_px d p px = Ret d'" "good_image d'" "im_rect d' = im_rect d"
    using set_px_inside assms(4,5) by blast
  then show ?thesis
    using assms(1-3) by (auto simp: good_store_upd same_rects_def)
qed

lemma same_rects_get:
  "same_rects S T \<Longrightarrow> S k = Some im \<Longrightarrow> \<exists>im'. T k = Some im' \<and> im_rect im' = im_rect im"
  by (simp add: same_rects_def) (metis map_option_eq_Some)

lemma over_step_keeps:
  assumes "S dst = Some d" and "S src = Some s"
    and "in_rect p (im_rect d)" and "in_rect (fst p + fst off, snd p + snd off) (im_rect s)"
    and "good_store T" and "same_rects S T"
  shows "\<exists>T'. over_step dst src off T p = Ret T' \<and> good_store T' \<and> same_rects S T'"
proof -
  obtain dt st where T: "T dst = Some dt" "im_rect dt = im_rect d" "T src = Some st" "im_rect st = im_rect s"
    using same_rects_get [OF assms(6)] assms(1,2) by metis
  have g: "good_image dt" "good_image st" using assms(5) T by (auto simp: good_store_def)
  obtain sp where sp: "get_px st (fst p + fst off, snd p + snd off) = Ret sp" "length sp = 4"
    using get_px_inside [OF g(2)] assms(4) T(4) by auto
  obtain dp where dp: "get_px dt p = Ret dp" "length dp = 4"
    using get_px_inside [OF g(1), of p] assms(3) T(2) by auto
  show ?thesis
    using write_px [OF assms(5,6) T(1), of p "over_px dp sp"] T assms(3) sp dp
    by (simp add: over_step_def)
qed

lemma mask_step_keeps:
  assumes "S dst = Some d" and "S src = Some s" and "S msk = Some m"
    and "in_rect p (im_rect d)" and "good_store T" and "same_rects S T"
  shows "\<exists>T'. mask_step dst src off msk moff T p = Ret T' \<and> good_store T' \<and> same_rects S T'"
proof -
  obtain dt st mt where T: "T dst = Some dt" "im_rect dt = im_rect d" "T src = Some st" "T msk = Some mt"
    using same_rects_get [OF assms(6)] assms(1-3) by metis
  have g: "good_image dt" "good_image st" "good_image mt" using assms(5) T by (auto simp: good_store_def)
  obtain sp where sp: "px_at st (fst p + fst off, snd p + snd off) = Ret sp" "length sp = 4"
    using px_at_total [OF g(2)] by blast
  obtain mp where mp: "px_at mt (fst p + fst moff, snd p + snd moff) = Ret mp"
    using px_at_total [OF g(3)] by blast
  obtain dp where dp: "get_px dt p = Ret dp" "length dp = 4"
    using get_px_inside [OF g(1), of p] assms(4) T(2) by auto
  show ?thesis
    using write_px [OF assms(5,6) T(1), of p "over_mask_px dp sp (mp ! 3)"] T assms(4) sp dp mp
    by (simp add: mask_step_def)
qed

lemma in_clip_dst: "in_rect p (clip d r s sp msk) \<Longrightarrow> in_rect p (im_rect d)"
  by (auto simp: clip_def in_intersect Let_def split: option.splits)

lemma in_clip_src:
  "in_rect p (clip d r s sp msk) \<Longrightarrow>
   in_rect (fst p + (fst sp - x0 r), snd p + (snd sp - y0 r)) (im_rect s)"
  by (auto simp: clip_def in_intersect in_add Let_def algebra_simps split: option.splits)

lemma draw_over_returns:
  assumes "good_store S"
  shows "\<exists>T. draw_over dst r src sp S = Ret T \<and> good_store T \<and> same_rects S T"
proof (cases "\<exists>d s. S dst = Some d \<and> S src = Some s")
  case True
  then obtain d s where S: "S dst = Some d" "S src = Some s" by blast
  let ?off = "(fst sp - x0 r, snd sp - y0 r)"
  have "\<exists>T. draw_points (over_step dst src ?off) ps S = Ret T \<and> good_store T \<and> same_rects S T"
    if "set ps = set (row_major (clip d r s sp None))" for ps
    using assms that
    by (intro draw_points_keeps over_step_keeps [where S = S, OF S])
      (auto dest!: row_major_in dest: in_clip_dst in_clip_src)
  then show ?thesis using S assms by (simp add: draw_over_def Let_def)
next
  case False
  then show ?thesis using assms by (auto simp: draw_over_def split: option.splits)
qed

lemma draw_mask_returns:
  assumes "good_store S"
  shows "\<exists>T. draw_mask dst r src sp msk mp S = Ret T \<and> good_store T \<and> same_rects S T"
proof (cases "\<exists>d s m. S dst = Some d \<and> S src = Some s \<and> S msk = Some m")
  case True
  then obtain d s m where S: "S dst = Some d" "S src = Some s" "S msk = Some m" by blast
  have "\<exists>T. draw_points (mask_step dst src off msk moff) ps S = Ret T \<and> good_store T \<and> same_rects S T"
    if "set ps = set (row_major (clip d r s sp (Some (m, mp))))" for ps off moff
    using assms that
    by (intro draw_points_keeps mask_step_keeps [where S = S, OF S]) (auto dest!: row_major_in in_clip_dst)
  then show ?thesis using S assms by (simp add: draw_mask_def Let_def)
next
  case False
  then show ?thesis using assms by (auto simp: draw_mask_def split: option.splits)
qed


section \<open>Transparent images\<close>

text \<open>An image whose bytes are all zero is transparent black. Drawn over another it changes nothing
  there, so a store of such images is a fixed point of drawing.\<close>

definition blank_image :: "rect \<Rightarrow> rgba" where
  "blank_image r = \<lparr>im_rect = r, im_pix = replicate (nat (pix_len r)) 0\<rparr>"

definition blank_store :: "('k \<rightharpoonup> rgba) \<Rightarrow> bool" where
  "blank_store S \<longleftrightarrow> (\<forall>k im. S k = Some im \<longrightarrow> good_rect (im_rect im) \<and> im = blank_image (im_rect im))"

lemma new_rgba_blank: "new_rgba r = Ret im \<Longrightarrow> im = blank_image r"
  by (auto simp: new_rgba_def blank_image_def split: if_splits)

lemma blank_image_sel [simp]:
  "im_rect (blank_image r) = r" "im_pix (blank_image r) = replicate (nat (pix_len r)) 0"
  by (simp_all add: blank_image_def)

lemma good_blank: "good_rect r \<Longrightarrow> good_image (blank_image r)"
  by (simp add: good_image_def)

lemma blank_store_good: "blank_store S \<Longrightarrow> good_store S"
  unfolding blank_store_def good_store_def using good_blank by metis

lemma replicate_4: "replicate 4 (0 :: u8) = [0, 0, 0, 0]"
  by (simp add: eval_nat_numeral)

lemma overwrite_replicate:
  "i + k \<le> n \<Longrightarrow> overwrite (replicate n x) i (replicate k x) = replicate n x"
  by (simp add: overwrite_def flip: replicate_add)

lemma get_px_blank:
  assumes "good_rect r" and "in_rect p r"
  shows "get_px (blank_image r) p = Ret [0, 0, 0, 0]"
  using pix_offset_bounds [OF good_blank [OF assms(1)], of p] assms(2)
  by (simp add: get_px_def go_slice_def slice_ok_def Let_def min_def replicate_4)

lemma set_px_blank:
  assumes "good_rect r" and "in_rect p r"
  shows "set_px (blank_image r) p [0, 0, 0, 0] = Ret (blank_image r)"
proof -
  note b = pix_offset_bounds [OF good_blank [OF assms(1)], of p]
  have "overwrite (im_pix (blank_image r)) (nat (pix_offset (blank_image r) p)) (replicate 4 0)
      = im_pix (blank_image r)"
    using b(2) assms(2) by (simp add: overwrite_replicate)
  then show ?thesis
    using b assms(2) by (simp add: set_px_def Let_def blank_image_def replicate_4)
qed

lemma px_at_blank: "good_rect r \<Longrightarrow> px_at (blank_image r) p = Ret [0, 0, 0, 0]"
  using get_px_blank by (simp add: px_at_def)

lemma over_zero: "over_px [0, 0, 0, 0] [0, 0, 0, 0] = [0, 0, 0, 0]"
  by (simp add: over_px_def wide_def Let_def)

lemma over_mask_zero: "over_mask_px [0, 0, 0, 0] [0, 0, 0, 0] m = [0, 0, 0, 0]"
  by (simp add: over_mask_px_def wide_def Let_def)

lemma draw_points_id: "(\<And>p. p \<in> set ps \<Longrightarrow> f S p = Ret S) \<Longrightarrow> draw_points f ps S = Ret S"
  by (induction ps) auto

lemma blank_storeE:
  assumes "blank_store S" and "S k = Some im"
  obtains "good_rect (im_rect im)" and "im = blank_image (im_rect im)"
  using assms by (auto simp: blank_store_def)

lemma over_step_blank:
  assumes "blank_store S" and "S dst = Some d" and "S src = Some s"
    and "in_rect p (im_rect d)" and "in_rect (fst p + fst off, snd p + snd off) (im_rect s)"
  shows "over_step dst src off S p = Ret S"
proof -
  obtain gd: "good_rect (im_rect d)" "d = blank_image (im_rect d)" by (rule blank_storeE [OF assms(1,2)])
  obtain gs: "good_rect (im_rect s)" "s = blank_image (im_rect s)" by (rule blank_storeE [OF assms(1,3)])
  have "get_px s (fst p + fst off, snd p + snd off) = Ret [0, 0, 0, 0]"
    using get_px_blank [OF gs(1) assms(5)] gs(2) by metis
  moreover have "get_px d p = Ret [0, 0, 0, 0]" "set_px d p [0, 0, 0, 0] = Ret d"
    using get_px_blank [OF gd(1) assms(4)] set_px_blank [OF gd(1) assms(4)] gd(2) by metis+
  ultimately show ?thesis
    using assms(2,3) by (simp add: over_step_def over_zero fun_upd_idem)
qed

lemma mask_step_blank:
  assumes "blank_store S" and "S dst = Some d" and "S src = Some s" and "S msk = Some m"
    and "in_rect p (im_rect d)"
  shows "mask_step dst src off msk moff S p = Ret S"
proof -
  obtain gd: "good_rect (im_rect d)" "d = blank_image (im_rect d)" by (rule blank_storeE [OF assms(1,2)])
  obtain gs: "good_rect (im_rect s)" "s = blank_image (im_rect s)" by (rule blank_storeE [OF assms(1,3)])
  obtain gm: "good_rect (im_rect m)" "m = blank_image (im_rect m)" by (rule blank_storeE [OF assms(1,4)])
  have "px_at s q = Ret [0, 0, 0, 0]" "px_at m q = Ret [0, 0, 0, 0]" for q
    using px_at_blank [OF gs(1)] px_at_blank [OF gm(1)] gs(2) gm(2) by metis+
  moreover have "get_px d p = Ret [0, 0, 0, 0]" "set_px d p [0, 0, 0, 0] = Ret d"
    using get_px_blank [OF gd(1) assms(5)] set_px_blank [OF gd(1) assms(5)] gd(2) by metis+
  ultimately show ?thesis
    using assms(2-4) by (simp add: mask_step_def over_mask_zero fun_upd_idem)
qed

lemma draw_over_blank:
  assumes "blank_store S"
  shows "draw_over dst r src sp S = Ret S"
proof (cases "\<exists>d s. S dst = Some d \<and> S src = Some s")
  case True
  then obtain d s where S: "S dst = Some d" "S src = Some s" by blast
  have "draw_points (over_step dst src (fst sp - x0 r, snd sp - y0 r)) ps S = Ret S"
    if "set ps = set (row_major (clip d r s sp None))" for ps
    using that
    by (intro draw_points_id over_step_blank [OF assms S])
      (auto dest!: row_major_in dest: in_clip_dst in_clip_src)
  then show ?thesis using S by (simp add: draw_over_def Let_def)
next
  case False
  then show ?thesis by (auto simp: draw_over_def split: option.splits)
qed

lemma draw_mask_blank:
  assumes "blank_store S"
  shows "draw_mask dst r src sp msk mp S = Ret S"
proof (cases "\<exists>d s m. S dst = Some d \<and> S src = Some s \<and> S msk = Some m")
  case True
  then obtain d s m where S: "S dst = Some d" "S src = Some s" "S msk = Some m" by blast
  have "draw_points (mask_step dst src off msk moff) ps S = Ret S"
    if "set ps = set (row_major (clip d r s sp (Some (m, mp))))" for ps off moff
    using that
    by (intro draw_points_id mask_step_blank [OF assms S]) (auto dest!: row_major_in dest: in_clip_dst)
  then show ?thesis using S by (simp add: draw_mask_def Let_def)
next
  case False
  then show ?thesis by (auto simp: draw_mask_def split: option.splits)
qed

end
