(* ===== verification/O9draw.thy ===== *)
theory O9draw
  imports Go_Image Go_Binary Go_Strings Simulation
begin

text \<open>
  \<open>cmd/o9draw/main.go\<close>: a draw device on an SDL window. The state is the images by number, the size
  of the window, the queue of mouse messages and what the window was given to show. SDL and the
  listener are outside the repository: what their calls answer is a record, and a refresh appends
  the slice and the stride it hands to the texture to \<open>o_frames\<close>.
\<close>

section \<open>State\<close>

record draw_dev =
  o_images :: "u32 \<rightharpoonup> rgba"
  o_width :: int
  o_height :: int
  o_mouse :: "string list"
  o_renderer :: bool
  o_frames :: "(bytes \<times> int) list"

definition new_draw_dev :: "int \<Rightarrow> int \<Rightarrow> draw_dev go" where
  "new_draw_dev width height =
     go_bind (new_rgba (rect_of 0 0 width height)) (\<lambda>im.
       Ret \<lparr>o_images = [0 \<mapsto> im], o_width = width, o_height = height, o_mouse = [],
            o_renderer = False, o_frames = []\<rparr>)"

text \<open>\<open>initSDL\<close>: each step may fail and ends it; the second result tells whether the event loop
  runs. A window without a texture keeps its renderer.\<close>

record sdl =
  sdl_init :: bool
  sdl_window :: bool
  sdl_renderer :: bool
  sdl_texture :: bool

definition init_sdl :: "sdl \<Rightarrow> draw_dev \<Rightarrow> draw_dev \<times> bool" where
  "init_sdl w ds =
     (if \<not> sdl_init w then (ds, False)
      else if \<not> sdl_window w then (ds, False)
      else if \<not> sdl_renderer w then (ds, False)
      else if \<not> sdl_texture w then (ds\<lparr>o_renderer := True\<rparr>, False)
      else (ds\<lparr>o_renderer := True\<rparr>, True))"

section \<open>Mouse\<close>

definition pad_left :: "nat \<Rightarrow> string \<Rightarrow> string" where
  "pad_left n s = replicate (n - length s) CHR '' '' @ s"

definition pad_right :: "nat \<Rightarrow> string \<Rightarrow> string" where
  "pad_right n s = s @ replicate (n - length s) CHR '' ''"

definition d11 :: "int \<Rightarrow> string" where
  "d11 i = pad_left 11 (itoa i)"

datatype sdl_event = QuitEvent | MouseMotionEvent i32 i32 u64 | OtherEvent

definition mouse_msg :: "i32 \<Rightarrow> i32 \<Rightarrow> u64 \<Rightarrow> string" where
  "mouse_msg x y ms =
     ''m'' @ d11 (sint x) @ '' '' @ d11 (sint y) @ '' '' @ d11 0 @ '' ''
       @ d11 (uint (ucast ms :: u32))"

text \<open>One turn of \<open>eventLoop\<close>; \<open>None\<close> is the exit of the process. The send drops the message when
  the channel holds its 100.\<close>

definition event_step :: "sdl_event \<Rightarrow> draw_dev \<Rightarrow> draw_dev option" where
  "event_step e ds =
     (case e of
        QuitEvent \<Rightarrow> None
      | MouseMotionEvent x y ms \<Rightarrow>
          Some (if length (o_mouse ds) < 100 then ds\<lparr>o_mouse := o_mouse ds @ [mouse_msg x y ms]\<rparr>
                else ds)
      | OtherEvent \<Rightarrow> Some ds)"

text \<open>\<open>MouseFile.Read\<close>: offset and count play no part; \<open>None\<close> is waiting for a message.\<close>

definition mouse_read :: "draw_dev \<Rightarrow> (string \<times> draw_dev) option" where
  "mouse_read ds =
     (case o_mouse ds of [] \<Rightarrow> None | m # ms \<Rightarrow> Some (m, ds\<lparr>o_mouse := ms\<rparr>))"

section \<open>The draw file\<close>

definition draw_info :: "draw_dev \<Rightarrow> string" where
  "draw_info ds =
     d11 0 @ '' '' @ d11 0 @ '' '' @ d11 0 @ '' '' @ pad_right 11 ''r8g8b8'' @ '' '' @ d11 0 @ '' ''
       @ d11 0 @ '' '' @ d11 (o_width ds) @ '' '' @ d11 (o_height ds) @ '' '' @ d11 0 @ '' ''"

definition draw_read :: "draw_dev \<Rightarrow> u64 \<Rightarrow> u64 \<Rightarrow> string" where
  "draw_read ds off cnt =
     (if unat off \<ge> length (draw_info ds) then [] else drop (unat off) (draw_info ds))"

text \<open>Words of a command, little-endian; \<open>int(int32(_))\<close> is \<open>sint\<close>.\<close>

definition word_at :: "bytes \<Rightarrow> nat \<Rightarrow> u32" where
  "word_at b i = le32 (b ! i) (b ! (i + 1)) (b ! (i + 2)) (b ! (i + 3))"

definition read_rect :: "bytes \<Rightarrow> rect" where
  "read_rect b =
     rect_of (sint (word_at b 0)) (sint (word_at b 4)) (sint (word_at b 8)) (sint (word_at b 12))"

definition read_point :: "bytes \<Rightarrow> point" where
  "read_point b = (sint (word_at b 0), sint (word_at b 4))"

definition sub :: "bytes \<Rightarrow> nat \<Rightarrow> nat \<Rightarrow> bytes" where
  "sub b lo hi = take (hi - lo) (drop lo b)"

definition alloc_image :: "u32 \<Rightarrow> rect \<Rightarrow> (u32 \<rightharpoonup> rgba) \<Rightarrow> (u32 \<rightharpoonup> rgba) go" where
  "alloc_image n r S = go_bind (new_rgba r) (\<lambda>im. Ret (S(n \<mapsto> im)))"

definition draw_op ::
    "u32 \<Rightarrow> u32 \<Rightarrow> u32 \<Rightarrow> rect \<Rightarrow> point \<Rightarrow> point \<Rightarrow> (u32 \<rightharpoonup> rgba) \<Rightarrow> (u32 \<rightharpoonup> rgba) go" where
  "draw_op dst src msk r p0 p1 S =
     (if S dst = None \<or> S src = None then Ret S
      else if S msk = None then draw_over dst r src p0 S
      else draw_mask dst r src p0 msk p1 S)"

text \<open>The loop of \<open>DrawFile.Write\<close>: a command that is cut short or unknown ends it.\<close>

function write_loop :: "bytes \<Rightarrow> (u32 \<rightharpoonup> rgba) \<Rightarrow> (u32 \<rightharpoonup> rgba) go" where
  "write_loop d S =
     (if d = [] then Ret S
      else if hd d = 0x62 then
        (if length d < 60 then Ret S
         else go_bind (alloc_image (word_at d 1) (read_rect (sub d 15 31)) S) (write_loop (drop 60 d)))
      else if hd d = 0x64 then
        (if length d < 45 then Ret S
         else go_bind (draw_op (word_at d 1) (word_at d 5) (word_at d 9) (read_rect (sub d 13 29))
                (read_point (sub d 29 37)) (read_point (sub d 37 45)) S) (write_loop (drop 45 d)))
      else Ret S)"
  by pat_completeness auto
termination by (relation "measure (\<lambda>(d, S). length d)") auto

declare write_loop.simps [simp del]

text \<open>\<open>refresh\<close> hands the slice of image 0 to the texture: an empty slice has no first element.\<close>

definition refresh :: "draw_dev \<Rightarrow> draw_dev go" where
  "refresh ds =
     (case o_images ds 0 of
        None \<Rightarrow> Panic
      | Some im \<Rightarrow>
          if im_pix im = [] then Panic
          else Ret (ds\<lparr>o_frames := o_frames ds @ [(im_pix im, stride im)]\<rparr>))"

definition draw_write :: "bytes \<Rightarrow> draw_dev \<Rightarrow> (u32 \<times> draw_dev) go" where
  "draw_write d ds =
     go_bind (write_loop d (o_images ds)) (\<lambda>S.
       let ds1 = ds\<lparr>o_images := S\<rparr> in
       if o_renderer ds1 then go_bind (refresh ds1) (\<lambda>ds2. Ret (of_nat (length d), ds2))
       else Ret (of_nat (length d), ds1))"

text \<open>How many bytes the texture reads from the pointer it is given: whole rows of the pitch.\<close>

definition texture_reads :: "draw_dev \<Rightarrow> int \<Rightarrow> int" where
  "texture_reads ds pitch = pitch * (o_height ds - 1) + 4 * o_width ds"

section \<open>main\<close>

datatype o9_exit = Fatal string | Serving string "(string \<times> nat) list" | Crash

definition o9_main :: "(string \<Rightarrow> string) \<Rightarrow> sdl \<Rightarrow> (string \<Rightarrow> string option) \<Rightarrow> o9_exit" where
  "o9_main genv w listen_err =
     (let user = (if genv ''USER'' = '''' then ''scott'' else genv ''USER'') in
      case new_draw_dev 1024 768 of
        Panic \<Rightarrow> Crash
      | Ret ds \<Rightarrow>
          let ds1 = fst (init_sdl w ds);
              ns = genv ''NAMESPACE''
          in if ns = '''' then Fatal ''NAMESPACE not set''
             else (case listen_err (ns @ ''/drawsrv'') of
                     Some e \<Rightarrow> Fatal e
                   | None \<Rightarrow> Serving (ns @ ''/drawsrv'')
                       [(''dev/draw'', 438), (''dev/mouse'', 292)]))"


section \<open>Commands\<close>

text \<open>What a client writes: the fields of a command in the order of its bytes, with the bytes that
  the device skips.\<close>

datatype o9_cmd =
    AllocCmd u32 bytes "u32 \<times> u32 \<times> u32 \<times> u32" bytes
  | DrawCmd u32 u32 u32 "u32 \<times> u32 \<times> u32 \<times> u32" "u32 \<times> u32" "u32 \<times> u32"

fun put_rect :: "u32 \<times> u32 \<times> u32 \<times> u32 \<Rightarrow> bytes" where
  "put_rect (a, b, c, d) = put_le32 a @ put_le32 b @ put_le32 c @ put_le32 d"

fun put_point :: "u32 \<times> u32 \<Rightarrow> bytes" where
  "put_point (a, b) = put_le32 a @ put_le32 b"

fun encode :: "o9_cmd \<Rightarrow> bytes" where
  "encode (AllocCmd n skip r fill) = 0x62 # put_le32 n @ skip @ put_rect r @ fill"
| "encode (DrawCmd dst src msk r p0 p1) =
     0x64 # put_le32 dst @ put_le32 src @ put_le32 msk @ put_rect r @ put_point p0 @ put_point p1"

fun o9_cmd_ok :: "o9_cmd \<Rightarrow> bool" where
  "o9_cmd_ok (AllocCmd n skip r fill) \<longleftrightarrow> length skip = 10 \<and> length fill = 29"
| "o9_cmd_ok (DrawCmd dst src msk r p0 p1) \<longleftrightarrow> True"

fun int_rect :: "u32 \<times> u32 \<times> u32 \<times> u32 \<Rightarrow> rect" where
  "int_rect (a, b, c, d) = rect_of (sint a) (sint b) (sint c) (sint d)"

fun int_point :: "u32 \<times> u32 \<Rightarrow> point" where
  "int_point (a, b) = (sint a, sint b)"

fun exec_cmd :: "o9_cmd \<Rightarrow> (u32 \<rightharpoonup> rgba) \<Rightarrow> (u32 \<rightharpoonup> rgba) go" where
  "exec_cmd (AllocCmd n skip r fill) S = alloc_image n (int_rect r) S"
| "exec_cmd (DrawCmd dst src msk r p0 p1) S =
     draw_op dst src msk (int_rect r) (int_point p0) (int_point p1) S"

fun exec_cmds :: "o9_cmd list \<Rightarrow> (u32 \<rightharpoonup> rgba) \<Rightarrow> (u32 \<rightharpoonup> rgba) go" where
  "exec_cmds [] S = Ret S"
| "exec_cmds (c # cs) S = go_bind (exec_cmd c S) (exec_cmds cs)"

text \<open>A tail that holds no whole command.\<close>

definition no_command :: "bytes \<Rightarrow> bool" where
  "no_command t \<longleftrightarrow>
     t = [] \<or> hd t = 0x62 \<and> length t < 60 \<or> hd t = 0x64 \<and> length t < 45 \<or> hd t \<noteq> 0x62 \<and> hd t \<noteq> 0x64"

lemma length_put [simp]:
  "length (put_rect r) = 16" "length (put_point p) = 8"
  by (cases r, cases p, simp)+

lemma word_at_simps [simp]:
  "0 < i \<Longrightarrow> word_at (x # b) i = word_at b (i - 1)"
  "length xs \<le> i \<Longrightarrow> word_at (xs @ b) i = word_at b (i - length xs)"
  "word_at (put_le32 v @ b) 0 = v"
  by (simp_all add: word_at_def nth_append nth_Cons' Suc_diff_le put_le32_def put_be32_def le32_def
      be32_put)

lemma word_at_put [simp]: "word_at (put_le32 v) 0 = v"
  using word_at_simps(3) [of v "[]"] by simp

lemma sub_simps [simp]:
  "0 < lo \<Longrightarrow> sub (x # b) lo hi = sub b (lo - 1) (hi - 1)"
  "length xs \<le> lo \<Longrightarrow> sub (xs @ b) lo hi = sub b (lo - length xs) (hi - length xs)"
  "sub b 0 n = take n b"
  by (simp_all add: sub_def drop_Cons')

lemma read_put [simp]: "read_rect (put_rect r) = int_rect r" "read_point (put_point p) = int_point p"
  by (cases r, cases p, simp add: read_rect_def read_point_def)+

lemma write_loop_cmd:
  assumes "o9_cmd_ok c"
  shows "write_loop (encode c @ d) S = go_bind (exec_cmd c S) (write_loop d)"
  using assms by (cases c) (simp_all add: write_loop.simps [of "_ # _"])

lemma write_loop_stop: "no_command t \<Longrightarrow> write_loop t S = Ret S"
  by (auto simp: no_command_def write_loop.simps [of t])

lemma write_loop_exec:
  "list_all o9_cmd_ok cs \<Longrightarrow> no_command t \<Longrightarrow> write_loop (concat (map encode cs) @ t) S = exec_cmds cs S"
proof (induction cs arbitrary: S)
  case Nil
  then show ?case by (simp add: write_loop_stop)
next
  case (Cons c cs)
  then show ?case by (cases "exec_cmd c S") (simp_all add: write_loop_cmd)
qed

section \<open>The device only shows black\<close>

text \<open>Every image the device has was made by \<open>NewRGBA\<close>, and no command writes a colour.\<close>

lemma draw_op_blank: "blank_store S \<Longrightarrow> draw_op dst src msk r p0 p1 S = Ret S"
  by (simp add: draw_op_def draw_over_blank draw_mask_blank)

lemma draw_op_returns:
  "good_store S \<Longrightarrow> \<exists>T. draw_op dst src msk r p0 p1 S = Ret T \<and> good_store T \<and> same_rects S T"
  unfolding draw_op_def
  using draw_over_returns [of S dst r src p0] draw_mask_returns [of S dst r src p0 msk p1] by simp

fun o9_fits :: "o9_cmd \<Rightarrow> bool" where
  "o9_fits (AllocCmd n skip r fill) \<longleftrightarrow> pix_len (int_rect r) \<le> max_alloc"
| "o9_fits (DrawCmd dst src msk r p0 p1) \<longleftrightarrow> True"

fun allocated :: "o9_cmd \<Rightarrow> (u32 \<rightharpoonup> rect) \<Rightarrow> (u32 \<rightharpoonup> rect)" where
  "allocated (AllocCmd n skip r fill) R = R(n \<mapsto> int_rect r)"
| "allocated (DrawCmd dst src msk r p0 p1) R = R"

definition blanks :: "(u32 \<rightharpoonup> rect) \<Rightarrow> (u32 \<rightharpoonup> rgba)" where
  "blanks R = (\<lambda>k. map_option blank_image (R k))"

definition good_rects :: "(u32 \<rightharpoonup> rect) \<Rightarrow> bool" where
  "good_rects R \<longleftrightarrow> (\<forall>k r. R k = Some r \<longrightarrow> good_rect r)"

lemma good_int_rect [simp]: "good_rect (int_rect r)"
  by (cases r) simp

lemma blank_store_blanks: "good_rects R \<Longrightarrow> blank_store (blanks R)"
  by (auto simp: blank_store_def blanks_def good_rects_def)

lemma blanks_upd: "(blanks R)(n \<mapsto> blank_image r) = blanks (R(n \<mapsto> r))"
  by (auto simp: blanks_def)

lemma allocated_good: "good_rects R \<Longrightarrow> good_rects (allocated c R)"
  by (cases c) (auto simp: good_rects_def)

lemma exec_cmd_blank:
  assumes "good_rects R"
  shows "exec_cmd c (blanks R) = (if o9_fits c then Ret (blanks (allocated c R)) else Panic)"
proof (cases c)
  case (AllocCmd n skip r fill)
  then show ?thesis
    by (simp add: alloc_image_def new_rgba_def blanks_upd flip: blank_image_def)
next
  case (DrawCmd dst src msk r p0 p1)
  then show ?thesis using draw_op_blank [OF blank_store_blanks [OF assms]] by simp
qed

lemma exec_cmds_blank:
  "good_rects R \<Longrightarrow> exec_cmds cs (blanks R) =
     (if list_all o9_fits cs then Ret (blanks (fold allocated cs R)) else Panic)"
  by (induction cs arbitrary: R) (simp_all add: exec_cmd_blank allocated_good)

lemma fold_allocated_good: "good_rects R \<Longrightarrow> good_rects (fold allocated cs R)"
  by (induction cs arbitrary: R) (simp_all add: allocated_good)


section \<open>Reachable devices\<close>

definition rects :: "draw_dev \<Rightarrow> (u32 \<rightharpoonup> rect)" where
  "rects ds = (\<lambda>k. map_option im_rect (o_images ds k))"

inductive o9_reach :: "draw_dev \<Rightarrow> bool" where
  o9_start: "0 \<le> w \<Longrightarrow> 0 \<le> h \<Longrightarrow> new_draw_dev w h = Ret ds \<Longrightarrow> o9_reach (fst (init_sdl v ds))"
| o9_write: "o9_reach ds \<Longrightarrow> draw_write d ds = Ret (n, ds') \<Longrightarrow> o9_reach ds'"
| o9_event: "o9_reach ds \<Longrightarrow> event_step e ds = Some ds' \<Longrightarrow> o9_reach ds'"
| o9_mouse: "o9_reach ds \<Longrightarrow> mouse_read ds = Some (m, ds') \<Longrightarrow> o9_reach ds'"

definition black :: "(bytes \<times> int) list \<Rightarrow> bool" where
  "black fs \<longleftrightarrow> list_all (\<lambda>f. set (fst f) \<subseteq> {0}) fs"

definition dev_ok :: "draw_dev \<Rightarrow> bool" where
  "dev_ok ds \<longleftrightarrow>
     o_images ds = blanks (rects ds) \<and> good_rects (rects ds) \<and> 0 \<in> dom (rects ds)
     \<and> length (o_mouse ds) \<le> 100 \<and> black (o_frames ds)"

lemma rects_simps [simp]:
  "rects (ds\<lparr>o_mouse := q\<rparr>) = rects ds" "rects (ds\<lparr>o_frames := fs\<rparr>) = rects ds"
  "rects (ds\<lparr>o_renderer := b\<rparr>) = rects ds"
  by (simp_all add: rects_def)

lemma rects_blanks [simp]: "rects (ds\<lparr>o_images := blanks R\<rparr>) = R"
  by (simp add: rects_def blanks_def option.map_comp o_def option.map_ident)

lemma write_loop_b:
  "d \<noteq> [] \<Longrightarrow> hd d = 0x62 \<Longrightarrow> 60 \<le> length d \<Longrightarrow> write_loop d S =
     go_bind (alloc_image (word_at d 1) (read_rect (sub d 15 31)) S) (write_loop (drop 60 d))"
  by (simp add: write_loop.simps [of d])

lemma write_loop_d:
  "d \<noteq> [] \<Longrightarrow> hd d = 0x64 \<Longrightarrow> 45 \<le> length d \<Longrightarrow> write_loop d S =
     go_bind (draw_op (word_at d 1) (word_at d 5) (word_at d 9) (read_rect (sub d 13 29))
       (read_point (sub d 29 37)) (read_point (sub d 37 45)) S) (write_loop (drop 45 d))"
  by (simp add: write_loop.simps [of d])

lemma alloc_blanks:
  "alloc_image n r (blanks R) = Ret S \<Longrightarrow> S = blanks (R(n \<mapsto> r))"
  by (auto simp: alloc_image_def go_simps blanks_upd dest: new_rgba_blank)

lemma write_loop_blanks:
  assumes "good_rects R" and "write_loop d (blanks R) = Ret S"
  shows "\<exists>R'. S = blanks R' \<and> good_rects R' \<and> dom R \<subseteq> dom R'"
  using assms
proof (induction "length d" arbitrary: d R rule: less_induct)
  case less
  consider "no_command d" | "d \<noteq> []" "hd d = 0x62" "60 \<le> length d"
    | "d \<noteq> []" "hd d = 0x64" "45 \<le> length d"
    by (fastforce simp: no_command_def)
  then show ?case
  proof cases
    case 1
    then show ?thesis using less.prems write_loop_stop by auto
  next
    case 2
    let ?r = "read_rect (sub d 15 31)" and ?n = "word_at d 1"
    obtain T where T: "alloc_image ?n ?r (blanks R) = Ret T" "write_loop (drop 60 d) T = Ret S"
      using less.prems(2) by (auto simp: write_loop_b [OF 2] go_simps)
    have g: "good_rects (R(?n \<mapsto> ?r))"
      using less.prems(1) by (auto simp: good_rects_def read_rect_def)
    have w: "write_loop (drop 60 d) (blanks (R(?n \<mapsto> ?r))) = Ret S"
      using T(2) unfolding alloc_blanks [OF T(1)] .
    have l: "length (drop 60 d) < length d" using 2 by simp
    show ?thesis using less.hyps [OF l g w] by auto
  next
    case 3
    have w: "write_loop (drop 45 d) (blanks R) = Ret S"
      using less.prems(2) draw_op_blank [OF blank_store_blanks [OF less.prems(1)]]
      by (simp add: write_loop_d [OF 3])
    have l: "length (drop 45 d) < length d" using 3 by simp
    show ?thesis using less.hyps [OF l less.prems(1) w] .
  qed
qed

lemma dev_ok_start:
  assumes "0 \<le> w" and "0 \<le> h" and "new_draw_dev w h = Ret ds"
  shows "dev_ok (fst (init_sdl v ds))"
proof -
  have "o_images ds = blanks [0 \<mapsto> rect_of 0 0 w h]" "o_mouse ds = []" "o_frames ds = []"
    using assms(3)
    by (auto simp: new_draw_dev_def go_simps blanks_def fun_eq_iff dest: new_rgba_blank)
  moreover from this(1) have "rects ds = [0 \<mapsto> rect_of 0 0 w h]"
    using rects_blanks [where R = "[0 \<mapsto> rect_of 0 0 w h]" and ds = ds] by (simp add: rects_def)
  ultimately have "dev_ok ds" by (simp add: dev_ok_def good_rects_def black_def)
  then show ?thesis by (simp add: init_sdl_def dev_ok_def)
qed

lemma blank_pix: "dev_ok ds \<Longrightarrow> o_images ds k = Some im \<Longrightarrow> set (im_pix im) \<subseteq> {0}"
  by (auto simp: dev_ok_def blanks_def fun_eq_iff dest!: spec [of _ k])

lemma refresh_ok: "dev_ok ds \<Longrightarrow> refresh ds = Ret ds' \<Longrightarrow> dev_ok ds'"
  using blank_pix [of ds 0]
  by (auto simp: refresh_def dev_ok_def black_def split: option.splits if_splits)

lemma dev_ok_images:
  "dev_ok ds \<Longrightarrow> good_rects R \<Longrightarrow> 0 \<in> dom R \<Longrightarrow> dev_ok (ds\<lparr>o_images := blanks R\<rparr>)"
  by (simp add: dev_ok_def)

lemma dev_ok_write:
  assumes ok: "dev_ok ds" and w: "draw_write d ds = Ret (n, ds')"
  shows "dev_ok ds'"
proof -
  obtain S where S: "write_loop d (o_images ds) = Ret S"
    using w by (auto simp: draw_write_def go_simps)
  obtain R where R: "S = blanks R" "good_rects R" "dom (rects ds) \<subseteq> dom R"
    using ok S write_loop_blanks [of "rects ds" d S] by (auto simp: dev_ok_def)
  have "0 \<in> dom R" using ok R(3) by (auto simp: dev_ok_def)
  then have "dev_ok (ds\<lparr>o_images := S\<rparr>)"
    unfolding R(1) by (rule dev_ok_images [OF ok R(2)])
  then show ?thesis
    using w S by (auto simp: draw_write_def go_simps Let_def dest: refresh_ok split: if_splits)
qed

lemma o9_reach_ok: "o9_reach ds \<Longrightarrow> dev_ok ds"
proof (induction rule: o9_reach.induct)
  case (o9_event ds e ds')
  then show ?case
    by (auto simp: dev_ok_def event_step_def rects_def split: sdl_event.splits if_splits)
next
  case (o9_mouse ds m ds')
  then show ?case by (auto simp: dev_ok_def mouse_read_def rects_def split: list.splits)
qed (auto intro: dev_ok_start dev_ok_write)

lemma allocated_dom: "dom R \<subseteq> dom (fold allocated cs R)"
proof (induction cs arbitrary: R)
  case (Cons c cs)
  have "dom R \<subseteq> dom (allocated c R)" by (cases c) auto
  then show ?case using Cons.IH [of "allocated c R"] by simp
qed simp

lemma draw_write_dev:
  assumes "dev_ok ds" and "list_all o9_cmd_ok cs" and "no_command t"
  shows "draw_write (concat (map encode cs) @ t) ds =
    (if list_all o9_fits cs then
       go_bind (if o_renderer ds then refresh (ds\<lparr>o_images := blanks (fold allocated cs (rects ds))\<rparr>)
                else Ret (ds\<lparr>o_images := blanks (fold allocated cs (rects ds))\<rparr>))
         (\<lambda>ds2. Ret (of_nat (length (concat (map encode cs) @ t)), ds2))
     else Panic)"
proof -
  have b: "o_images ds = blanks (rects ds)" "good_rects (rects ds)"
    using assms(1) by (simp_all add: dev_ok_def)
  have "write_loop (concat (map encode cs) @ t) (o_images ds)
      = (if list_all o9_fits cs then Ret (blanks (fold allocated cs (rects ds))) else Panic)"
    unfolding b(1) using assms(2,3) b(2) by (simp add: write_loop_exec exec_cmds_blank)
  then show ?thesis by (simp add: draw_write_def)
qed


section \<open>Properties\<close>

text \<open>Claim C31. \<open>DrawFile.Write\<close> executes the commands of the bytes it gets, in their order, each
  with the fields the client put in it, on every state of the images; a tail that is cut short or
  starts with another byte is dropped.\<close>

theorem o9_write_executes:
  assumes "list_all o9_cmd_ok cs" and "no_command t"
  shows "write_loop (concat (map encode cs) @ t) S = exec_cmds cs S"
  using assms by (rule write_loop_exec)

definition demo_o9_cmds :: "o9_cmd list" where
  "demo_o9_cmds =
     [AllocCmd 1 (replicate 10 7) (0, 0, 1, 1) (replicate 29 255),
      DrawCmd 0 1 2 (0, 0, 1, 1) (0, 0) (0, 0)]"

lemma demo_o9_ok: "list_all o9_cmd_ok demo_o9_cmds" "no_command [0x64, 1, 2]"
  by (simp_all add: demo_o9_cmds_def no_command_def)

definition white_dot :: rgba where
  "white_dot = \<lparr>im_rect = \<lparr>x0 = 0, y0 = 0, x1 = 1, y1 = 1\<rparr>, im_pix = [255, 255, 255, 255]\<rparr>"

lemma demo_exec:
  "exec_cmds demo_o9_cmds [0 \<mapsto> white_dot]
     = Ret [0 \<mapsto> white_dot, 1 \<mapsto> blank_image \<lparr>x0 = 0, y0 = 0, x1 = 1, y1 = 1\<rparr>]"
  by (simp add: demo_o9_cmds_def alloc_image_def new_rgba_def rect_of_def pix_len_def max_alloc_def
      blank_image_def white_dot_def draw_op_def draw_over_def clip_def rect_intersect_def
      rect_add_def rect_empty_def row_major_def over_step_def get_px_def set_px_def pix_offset_def
      stride_def go_simps overwrite_def over_px_def wide_def Let_def replicate_4 fun_upd_twist)

theorem o9_write_executes_witness:
  "write_loop (concat (map encode demo_o9_cmds) @ [0x64, 1, 2]) [0 \<mapsto> white_dot]
     = Ret [0 \<mapsto> white_dot, 1 \<mapsto> blank_image \<lparr>x0 = 0, y0 = 0, x1 = 1, y1 = 1\<rparr>]"
  using o9_write_executes [OF demo_o9_ok, of "[0 \<mapsto> white_dot]"] demo_exec by simp

text \<open>Claim C33. Whatever is written to it, a device only ever shows black: in every reachable state
  the bytes of every image and of every frame handed to the window are zero, because an image
  starts transparent and no command carries a colour into it. Its queue of mouse messages never
  holds more than 100.\<close>

theorem o9_shows_black:
  assumes "o9_reach ds"
  shows "(\<forall>n. case o_images ds n of None \<Rightarrow> True | Some im \<Rightarrow> set (im_pix im) \<subseteq> {0})
    \<and> black (o_frames ds) \<and> length (o_mouse ds) \<le> 100"
  using o9_reach_ok [OF assms] blank_pix by (simp add: dev_ok_def split: option.splits)

text \<open>Claim C32. In every reachable state a write of whole commands panics exactly when one of them
  asks for an image that cannot be allocated, or when there is a window and the last allocation of
  image 0 is empty: drawing never does. Otherwise it returns the length of the data, and the device
  has the rectangles the commands allocated.\<close>

theorem o9_write_outcome:
  assumes "o9_reach ds" and "list_all o9_cmd_ok cs" and "no_command t"
  defines "d \<equiv> concat (map encode cs) @ t" and "R \<equiv> fold allocated cs (rects ds)"
  shows "case draw_write d ds of
      Panic \<Rightarrow> \<not> list_all o9_fits cs \<or> o_renderer ds \<and> pix_len (the (R 0)) = 0
    | Ret (n, ds') \<Rightarrow> list_all o9_fits cs \<and> (o_renderer ds \<longrightarrow> pix_len (the (R 0)) \<noteq> 0)
        \<and> n = of_nat (length d) \<and> rects ds' = R"
proof -
  note ok = o9_reach_ok [OF assms(1)]
  have "0 \<in> dom R" using ok allocated_dom [of "rects ds" cs] by (auto simp: R_def dev_ok_def)
  moreover have "good_rects R" using ok fold_allocated_good by (simp add: R_def dev_ok_def)
  ultimately obtain r where r: "R 0 = Some r" "0 \<le> pix_len r"
    using pix_len_nonneg by (auto simp: good_rects_def)
  then have "blanks R 0 = Some (blank_image r)" by (simp add: blanks_def)
  then show ?thesis
    unfolding d_def draw_write_dev [OF ok assms(2,3)] R_def [symmetric]
    using r by (simp add: refresh_def)
qed

text \<open>A device with a window of two pixels, and an allocation of image 0 that is empty.\<close>

definition demo_dev :: draw_dev where
  "demo_dev = \<lparr>o_images = [0 \<mapsto> blank_image \<lparr>x0 = 0, y0 = 0, x1 = 2, y1 = 1\<rparr>], o_width = 2, o_height = 1,
     o_mouse = [], o_renderer = True, o_frames = []\<rparr>"

definition empty_screen :: o9_cmd where
  "empty_screen = AllocCmd 0 (replicate 10 0) (0, 0, 0, 0) (replicate 29 0)"

lemma demo_dev_reach: "o9_reach demo_dev"
proof -
  let ?v = "\<lparr>sdl_init = True, sdl_window = True, sdl_renderer = True, sdl_texture = True\<rparr>"
  have "o9_reach (fst (init_sdl ?v (demo_dev\<lparr>o_renderer := False\<rparr>)))"
    by (rule o9_start [of 2 1])
      (simp_all add: new_draw_dev_def new_rgba_def rect_of_def pix_len_def max_alloc_def demo_dev_def
        blank_image_def)
  then show ?thesis by (simp add: init_sdl_def demo_dev_def)
qed

lemma empty_screen_ok: "list_all o9_cmd_ok [empty_screen]" "no_command []"
  by (simp_all add: empty_screen_def no_command_def)

theorem o9_shows_black_witness: "set (im_pix (the (o_images demo_dev 0))) \<subseteq> {0}"
  using o9_shows_black [OF demo_dev_reach] by (auto simp: demo_dev_def)

theorem o9_write_outcome_witness: "draw_write (encode empty_screen) demo_dev = Panic"
  using o9_write_outcome [OF demo_dev_reach empty_screen_ok]
  by (auto simp: empty_screen_def rect_of_def pix_len_def demo_dev_def split: go.splits)

text \<open>A smaller image 0 keeps its slice, but the texture reads rows of the window: past its end.\<close>

lemma small_screen_overread:
  assumes "o_width ds = 1024" and "o_height ds = 768"
    and "im = blank_image \<lparr>x0 = 0, y0 = 0, x1 = 1, y1 = 1\<rparr>"
  shows "texture_reads ds (stride im) > int (length (im_pix im))"
  using assms by (simp add: texture_reads_def stride_def pix_len_def)

section \<open>Mouse and main\<close>

text \<open>Motions queue until 100 messages wait; later ones are lost.\<close>

fun motions :: "(i32 \<times> i32 \<times> u64) list \<Rightarrow> draw_dev \<Rightarrow> draw_dev option" where
  "motions [] ds = Some ds"
| "motions ((x, y, ms) # es) ds =
     (case event_step (MouseMotionEvent x y ms) ds of None \<Rightarrow> None | Some ds' \<Rightarrow> motions es ds')"

lemma motions_queue:
  "length (o_mouse ds) \<le> 100 \<Longrightarrow> motions es ds =
     Some (ds\<lparr>o_mouse := take 100 (o_mouse ds @ map (\<lambda>(x, y, ms). mouse_msg x y ms) es)\<rparr>)"
  by (induction es arbitrary: ds) (auto simp: event_step_def take_Cons')

lemma o9_main_needs_namespace:
  "genv ''NAMESPACE'' = [] \<Longrightarrow> o9_main genv w l = Fatal ''NAMESPACE not set''"
  by (simp add: o9_main_def new_draw_dev_def new_rgba_def rect_of_def pix_len_def max_alloc_def)

end

