(* ===== verification/Ticket.thy ===== *)
theory Ticket
  imports Go_Base
begin

text \<open>
  \<open>auth/auth_drawterm.go\<close>: a ticket request and its wire form. The conversion is the C function
  \<open>convTR2M\<close> of drawterm's libauthsrv, outside the repository: a parameter that gets the C struct
  and the buffer and returns the count and what the buffer holds afterwards. \<open>conv_law\<close> is the
  layout that auth(6) documents.
\<close>

record ticketreq =
  tr_type :: u8
  tr_authid :: bytes
  tr_authdom :: bytes
  tr_chal :: bytes
  tr_hostid :: bytes
  tr_uid :: bytes

definition ANAMELEN :: nat where "ANAMELEN = 28"
definition DOMLEN :: nat where "DOMLEN = 48"
definition CHALLEN :: nat where "CHALLEN = 8"
definition TICKREQLEN :: nat where "TICKREQLEN = 141"

lemmas ticket_lens = ANAMELEN_def DOMLEN_def CHALLEN_def TICKREQLEN_def

text \<open>The lengths are part of the type of the struct.\<close>

definition ticketreq_ok :: "ticketreq \<Rightarrow> bool" where
  "ticketreq_ok t \<longleftrightarrow>
     length (tr_authid t) = ANAMELEN \<and> length (tr_authdom t) = DOMLEN \<and> length (tr_chal t) = CHALLEN
     \<and> length (tr_hostid t) = ANAMELEN \<and> length (tr_uid t) = ANAMELEN"

definition c_struct :: "ticketreq \<Rightarrow> ticketreq" where
  "c_struct t =
     \<lparr>tr_type = tr_type t,
      tr_authid = overwrite (replicate ANAMELEN 0) 0 (tr_authid t),
      tr_authdom = overwrite (replicate DOMLEN 0) 0 (tr_authdom t),
      tr_chal = overwrite (replicate CHALLEN 0) 0 (tr_chal t),
      tr_hostid = overwrite (replicate ANAMELEN 0) 0 (tr_hostid t),
      tr_uid = overwrite (replicate ANAMELEN 0) 0 (tr_uid t)\<rparr>"

definition marshal ::
    "(ticketreq \<Rightarrow> bytes \<Rightarrow> int \<times> bytes) \<Rightarrow> ticketreq \<Rightarrow> (string + bytes) go" where
  "marshal conv t =
     (let (n, buf) = conv (c_struct t) (replicate TICKREQLEN 0) in
      if n \<le> 0 then Ret (Inl ''convTR2M failed'')
      else go_bind (go_slice buf 0 (nat n)) (\<lambda>b. Ret (Inr b)))"

definition ticket_wire :: "ticketreq \<Rightarrow> bytes" where
  "ticket_wire t = tr_type t # tr_authid t @ tr_authdom t @ tr_chal t @ tr_hostid t @ tr_uid t"

definition conv_law :: "(ticketreq \<Rightarrow> bytes \<Rightarrow> int \<times> bytes) \<Rightarrow> bool" where
  "conv_law conv \<longleftrightarrow>
     (\<forall>t buf. ticketreq_ok t \<longrightarrow> conv t buf =
        (if length buf < TICKREQLEN then (0, buf)
         else (int TICKREQLEN, overwrite buf 0 (ticket_wire t))))"

definition parse_ticket :: "bytes \<Rightarrow> ticketreq" where
  "parse_ticket b =
     \<lparr>tr_type = hd b, tr_authid = take 28 (drop 1 b), tr_authdom = take 48 (drop 29 b),
      tr_chal = take 8 (drop 77 b), tr_hostid = take 28 (drop 85 b), tr_uid = drop 113 b\<rparr>"

lemma c_struct_id: "ticketreq_ok t \<Longrightarrow> c_struct t = t"
  by (cases t) (simp add: c_struct_def ticketreq_ok_def overwrite_full)

lemma length_ticket_wire: "ticketreq_ok t \<Longrightarrow> length (ticket_wire t) = TICKREQLEN"
  by (simp add: ticket_wire_def ticketreq_ok_def ticket_lens)

text \<open>With a conversion that keeps its documentation the request comes out whole, field by field.\<close>

lemma marshal_wire:
  assumes "conv_law conv" and "ticketreq_ok t"
  shows "marshal conv t = Ret (Inr (ticket_wire t)) \<and> parse_ticket (ticket_wire t) = t"
proof -
  have "overwrite (replicate TICKREQLEN 0) 0 (ticket_wire t) = ticket_wire t"
    by (rule overwrite_full) (simp add: length_ticket_wire [OF assms(2)])
  then have "marshal conv t = Ret (Inr (ticket_wire t))"
    using assms length_ticket_wire [OF assms(2)]
    by (simp add: marshal_def c_struct_id conv_law_def go_slice_def slice_ok_def ticket_lens)
  moreover have "parse_ticket (ticket_wire t) = t"
    using assms(2) by (cases t) (simp add: parse_ticket_def ticket_wire_def ticketreq_ok_def ticket_lens)
  ultimately show ?thesis by simp
qed

lemma marshal_fails: "(\<And>s b. fst (conv s b) \<le> 0) \<Longrightarrow> marshal conv t = Ret (Inl ''convTR2M failed'')"
  by (simp add: marshal_def split_beta Let_def)

end
