(* ===== verification/Spec2Isabelle.thy ===== *)
theory Spec2Isabelle
  imports Rcpud Mount Framebuffer Drawsrv_Cmd Gortns L9term O9draw Ticket
begin

text \<open>
  A verification development for \<open>rcpud\<close>, a daemon that gives a Plan 9 \<open>drawterm\<close> client a shell on
  a Unix host, and for the programs beside it.

  \<^bold>\<open>The program.\<close> \<open>rcpud\<close> accepts a connection, offers \<open>p9any\<close> (\<open>negotiateProtocol\<close>), lets
  factotum authenticate the client through the connection (\<open>proxyAuth\<close>), upgrades to TLS with the
  shared secret, reads the client's environment (\<open>readClientEnv\<close>), serves a local name space over
  9P and FUSE, and runs the shell on a pseudo terminal whose other end is copied to the client's
  console (\<open>launchShell\<close>). Agents under \<open>/gortns\<close> run commands in the background; \<open>l9term\<close> is a
  terminal of its own built on the same idea. The draw servers answer requests for the
  framebuffer and the virtual mouse and keyboard.

  \<^bold>\<open>Shared theories.\<close> \<open>Go_Base\<close>: widths, panics as values (\<open>go\<close>), slices, the collections of
  simplification rules. \<open>Go_Strings\<close>, \<open>Go_Binary\<close>, \<open>Go_Path\<close>: what the source uses of \<open>strings\<close>,
  \<open>strconv\<close>, \<open>fmt.Sscanf\<close>, \<open>encoding/binary\<close> and \<open>path/filepath\<close>. \<open>Net_Conn\<close>: a connection as the list
  of segments the network delivers, with \<open>Read\<close>, \<open>Write\<close>, \<open>io.ReadFull\<close>, and the locale \<open>byte_source\<close>
  of readers that return what is pending next. \<open>Bufio\<close>: \<open>bufio.Reader\<close>, an interpretation of that
  locale. \<open>Offset_File\<close>: the read of a 9P file that serves a byte string by offset, in 64-bit
  arithmetic. \<open>Fid_Stream\<close>: the locale of an output stream with one position per reader,
  interpreted by the agents of both programs. \<open>Progress\<close>: runs of a step relation and the locale of
  a process that comes to rest when left alone, interpreted by the same agents. \<open>Simulation\<close>: sequences of operations and the
  locale of a refinement by single steps, interpreted by the exported files. \<open>Host_Files\<close>: open
  files of the host as \<open>os.File\<close> shows them. \<open>Go_Image\<close>: rectangles, \<open>RGBA\<close> images and drawing as
  \<open>image\<close> and \<open>image/draw\<close> define them. \<open>Go_Regexp\<close>: patterns as the package \<open>regexp\<close> reads them,
  the leftmost match in the order of its alternatives, \<open>ReplaceAllString\<close> with the empty string, and the
  language of an expression that a match must be in.

  \<^bold>\<open>Components.\<close>
  \<^item> \<open>Auth_Proxy\<close> (\<open>cmd/rcpud/authproxy.go\<close>): the conversation with factotum, request by request.
    Factotum is the list of its replies. Lemmas: who can be authenticated, independence of the
    segmentation of the network, no panic, decoding of the identity.
  \<^item> \<open>Client_Env\<close> (\<open>cmd/rcpud/main.go\<close>): negotiation, script, \<open>-mount\<close> flag. Lemmas: exact reads, the
    round trip of the environment with what is trimmed on the way, what a bad script does.
  \<^item> \<open>Shell\<close> (\<open>main.go\<close>): command and environment of the shell, the ANSI filter, the console
    pipes, the notes. Lemmas: the pattern of the source, read and searched by \<open>Go_Regexp\<close>, matches the
    terminal sequences and nothing else, and what the filter keeps of a text.
  \<^item> \<open>Session\<close> (\<open>main.go\<close>): \<open>handleRcpu\<close> and what it calls as the list of its effects, deferred calls
    included, the framebuffer that a session opens for its name space, the connections its local 9P
    server accepts, and the FUSE process that is killed but not waited for. Lemmas: no shell without authentication, what a session still holds
    when it is over.
  \<^item> \<open>Tls_Psk\<close> (\<open>ssl_psk.go\<close>): the handshake as the list of what it does to memory and descriptors,
    the connection as an interpretation of \<open>byte_source\<close>. Lemmas: when the upgrade succeeds and
    what it keeps, the stream a reader gets.
  \<^item> \<open>Namespace\<close> (\<open>main.go\<close>, \<open>fb.go\<close>, \<open>drawproxy.go\<close>): \<open>setupNamespace\<close>, \<open>addFramebuffer\<close>, the mounts,
    the proxy files, over the trees of the 9P library. Lemmas: the tree a session serves.
  \<^item> \<open>Mount\<close> (\<open>mount.go\<close>): nodes and open files of an exported directory. Lemmas: refinement of the
    file a client sees, the descriptors held, the paths a walk reaches.
  \<^item> \<open>Rcpud\<close> (\<open>main.go\<close>): \<open>main\<close>, and a session with \<open>Tls_Psk\<close> and \<open>Namespace\<close> in place of the
    answers that \<open>Session\<close> leaves open. Lemmas span the components: what standard input and output
    can reach, that the panic of one session ends the daemon, when the console is connected.
  \<^item> \<open>Framebuffer\<close> (\<open>cmd/rcpud/fb.go\<close>, \<open>internal/fb/fb.go\<close>, the framebuffers of the draw servers): openers
    as sequences of system calls whose results are arguments, copy, close, the 9P file.
  \<^item> \<open>Wsysmsg\<close>, \<open>Uinput\<close>, \<open>Draw_Server\<close>, \<open>Drawsrv\<close> (\<open>drawsrv.go\<close>): the message codec, the virtual
    devices, the server loop as a locale over a codec and a reply function, and its
    interpretation by \<open>handleDraw\<close>, with the bytes it writes. \<open>Drawsrv_Cmd\<close> (\<open>cmd/drawsrv/main.go\<close>):
    the second copy, an interpretation of the same locales, its equivalence with the first, and the one
    request they answer differently.
  \<^item> \<open>Gortns\<close> (\<open>cmd/rcpud/gortns.go\<close>), \<open>L9term\<close> (\<open>cmd/l9term/main.go\<close>): an agent as a record, its
    goroutines as a labelled step relation with one step per critical section or channel
    operation, reachability and invariants. A stop that another goroutine sends (\<open>GortnManager.Remove\<close>)
    is the label \<open>StopSent\<close>. Lemmas: each command taken is answered in order, how many steps an agent
    takes by itself, what can stop it, what each reader of the output gets. The manager is its map
    of agents, the stops it sent and the directory calls it made, read as a tree in which a taken name
    is refused; the command loop of \<open>l9term\<close> is the list of what its lines do.
  \<^item> \<open>O9draw\<close> (\<open>cmd/o9draw/main.go\<close>): a draw device on an SDL window. Lemmas: execution of a write,
    when it panics, what can be seen.
  \<^item> \<open>Ticket\<close> (\<open>auth/auth_drawterm.go\<close>): the ticket request and its wire form.

  \<^bold>\<open>Termination.\<close> No definition has fuel: a loop that reads recurses on the bytes still pending, a
  conversation on the replies still to come, a loop over host calls on the list of their results,
  the parser of draw commands on the bytes left; goroutines that never end are step relations,
  whose runs are bounded where nothing more comes in.

  \<^bold>\<open>Bounds.\<close> Lengths and offsets that the source computes in 16, 32 or 64 bits are words where they can
  wrap (framebuffer sizes, 9P reads, message fields); elsewhere they are natural numbers and
  the text of the theory says why nothing wraps.

  \<^bold>\<open>Outside the model.\<close> The 9P, TLS, FUSE and SDL libraries, OpenSSL, drawterm's C library and the
  operating system are arguments: a record of what their calls answer, or a function under its
  documented laws (\<open>tree_laws\<close>, \<open>conv_law\<close>). The drawing of \<open>image/draw\<close> is Go's standard library
  and is modelled. Methods that return a constant (deadlines, addresses, \<open>SetParent\<close>, \<open>WriteStat\<close>)
  are left out, and so are the SDL test programs under \<open>o9draw\<close>, which only call SDL.
  Data races are outside too: each critical section is one step, and the two of \<open>readOut\<close>, which only
  touch the entry of their own fid, are merged. Sessions are run one after the other: they share no state
  but the daemon, which ends with the panic of one.
\<close>

end
